theory Spec2Isabelle
  imports Main "HOL-Library.Sublist" "HOL-Library.AList"
begin

section \<open>Strings\<close>

text \<open>
  A Python \<open>str\<close> is modelled as a \<open>string\<close>; a \<open>char\<close> is read as a Unicode code
  point below 256. The character classes below are the ones of Python on that range.
\<close>

definition newline :: char where
  "newline = CHR 0x0A"

definition isspace :: "char \<Rightarrow> bool" where
  \<comment> \<open>\<open>str.isspace\<close>, and the class \<open>\s\<close> of \<open>re\<close> on a \<open>str\<close> pattern\<close>
  "isspace c = (c \<in> set [CHR 0x09, CHR 0x0A, CHR 0x0B, CHR 0x0C, CHR 0x0D, CHR 0x1C,
                          CHR 0x1D, CHR 0x1E, CHR 0x1F, CHR 0x20, CHR 0x85, CHR 0xA0])"

definition isdigit :: "char \<Rightarrow> bool" where
  \<comment> \<open>the class \<open>\d\<close>\<close>
  "isdigit c = (c \<in> set ''0123456789'')"

definition anychar :: "char \<Rightarrow> bool" where
  \<comment> \<open>the class \<open>.\<close> (no DOTALL flag): everything but a newline\<close>
  "anychar c = (c \<noteq> newline)"

definition lit :: "char \<Rightarrow> char \<Rightarrow> bool" where
  "lit a c = (c = a)"

definition oneof :: "string \<Rightarrow> char \<Rightarrow> bool" where
  "oneof cs c = (c \<in> set cs)"

definition rstrip :: "string \<Rightarrow> string" where
  "rstrip s = rev (dropWhile isspace (rev s))"

definition strip :: "string \<Rightarrow> string" where
  "strip s = dropWhile isspace (rstrip s)"

definition strip_chars :: "string \<Rightarrow> string \<Rightarrow> string" where
  \<comment> \<open>\<open>s.strip(cs)\<close>\<close>
  "strip_chars cs s = dropWhile (\<lambda>c. c \<in> set cs) (rev (dropWhile (\<lambda>c. c \<in> set cs) (rev s)))"

fun split_on :: "char \<Rightarrow> string \<Rightarrow> string list" where
  \<comment> \<open>\<open>s.split(d)\<close> for a one-character separator\<close>
  "split_on d [] = [[]]"
| "split_on d (x # xs) =
     (if x = d then [] # split_on d xs
      else (case split_on d xs of [] \<Rightarrow> [[x]] | y # ys \<Rightarrow> (x # y) # ys))"

definition linebreak :: "char \<Rightarrow> bool" where
  \<comment> \<open>the line boundaries of \<open>str.splitlines\<close>\<close>
  "linebreak c = (c \<in> set [CHR 0x0A, CHR 0x0D, CHR 0x0B, CHR 0x0C, CHR 0x1C, CHR 0x1D,
                            CHR 0x1E, CHR 0x85])"

fun splitlines :: "string \<Rightarrow> string list" where
  "splitlines [] = []"
| "splitlines (x # xs) =
     (if x = CHR 0x0D \<and> xs \<noteq> [] \<and> hd xs = CHR 0x0A then [] # splitlines (tl xs)
      else if linebreak x then [] # splitlines xs
      else (case splitlines xs of [] \<Rightarrow> [[x]] | y # ys \<Rightarrow> (x # y) # ys))"

fun join :: "string \<Rightarrow> string list \<Rightarrow> string" where
  \<comment> \<open>\<open>sep.join(xs)\<close>\<close>
  "join sep [] = []"
| "join sep [x] = x"
| "join sep (x # y # ys) = x @ sep @ join sep (y # ys)"

definition digit_char :: "nat \<Rightarrow> char" where
  "digit_char d = ''0123456789'' ! d"

fun str_nat :: "nat \<Rightarrow> string" where
  \<comment> \<open>\<open>str(n)\<close> for a non-negative integer\<close>
  "str_nat n = (if n < 10 then [digit_char n] else str_nat (n div 10) @ [digit_char (n mod 10)])"

declare str_nat.simps [simp del]

definition lower_char :: "char \<Rightarrow> char" where
  "lower_char c =
     (let n = (of_char c :: nat)
      in if (65 \<le> n \<and> n \<le> 90) \<or> (192 \<le> n \<and> n \<le> 222 \<and> n \<noteq> 215) then char_of (n + 32) else c)"

definition lower :: "string \<Rightarrow> string" where
  "lower s = map lower_char s"

fun contains :: "string \<Rightarrow> string \<Rightarrow> bool" where
  \<comment> \<open>\<open>xs in ys\<close> on strings\<close>
  "contains xs [] = (xs = [])"
| "contains xs (y # ys) = (prefix xs (y # ys) \<or> contains xs ys)"

section \<open>Regular expressions\<close>

text \<open>
  The patterns of \<open>parser.py\<close> are values of \<open>regex\<close>, matched by a backtracking matcher
  that lists every way to match at the start of the string, in the order in which
  Python's \<open>re\<close> tries them (repetitions are greedy, alternatives left to right). Python
  takes the first. A result pairs the groups captured so far (the latest capture of a
  group first) with the rest of the string.
\<close>

datatype regex =
    Sym "char \<Rightarrow> bool"
  | Eps
  | Eos
  | Seq regex regex
  | Alt regex regex
  | Star regex
  | Rep nat nat regex
  | Grp nat regex

definition Opt :: "regex \<Rightarrow> regex" where
  "Opt r = Alt r Eps"

definition Plus :: "regex \<Rightarrow> regex" where
  "Plus r = Seq r (Star r)"

fun rsize :: "regex \<Rightarrow> nat" where
  "rsize (Sym p) = 1"
| "rsize Eps = 1"
| "rsize Eos = 1"
| "rsize (Seq a b) = rsize a + rsize b + 1"
| "rsize (Alt a b) = rsize a + rsize b + 1"
| "rsize (Star a) = rsize a + 1"
| "rsize (Rep lo hi a) = (hi + 1) * (rsize a + 1)"
| "rsize (Grp i a) = rsize a + 1"

type_synonym caps = "(nat \<times> string) list"

function matches :: "regex \<Rightarrow> string \<Rightarrow> caps \<Rightarrow> (caps \<times> string) list" where
  "matches (Sym p) s c = (case s of [] \<Rightarrow> [] | x # t \<Rightarrow> if p x then [(c, t)] else [])"
| "matches Eps s c = [(c, s)]"
| "matches Eos s c = (if s = [] \<or> s = [newline] then [(c, s)] else [])"
| "matches (Seq a b) s c = concat (map (\<lambda>(c', s'). matches b s' c') (matches a s c))"
| "matches (Alt a b) s c = matches a s c @ matches b s c"
| "matches (Star a) s c =
     concat (map (\<lambda>(c', s'). if length s' < length s then matches (Star a) s' c' else [])
                 (matches a s c)) @ [(c, s)]"
| "matches (Rep lo hi a) s c =
     (if hi = 0 then []
      else concat (map (\<lambda>(c', s'). matches (Rep (lo - 1) (hi - 1) a) s' c') (matches a s c)))
     @ (if lo = 0 then [(c, s)] else [])"
| "matches (Grp i a) s c =
     map (\<lambda>(c', s'). ((i, take (length s - length s') s) # c', s')) (matches a s c)"
  by pat_completeness auto
termination
  by (relation "measures [\<lambda>(r, s, c). rsize r, \<lambda>(r, s, c). length s]") auto

definition first_match :: "regex \<Rightarrow> string \<Rightarrow> caps option" where
  \<comment> \<open>\<open>pattern.match(s)\<close>: the groups of the first match, None when there is none\<close>
  "first_match r s = (case matches r s [] of [] \<Rightarrow> None | (c, rest) # _ \<Rightarrow> Some c)"

definition group :: "caps \<Rightarrow> nat \<Rightarrow> string option" where
  "group c i = map_of c i"

text \<open>
  The five patterns. Each starts with \<open>^\<close> and is used with \<open>match\<close> (or, for the
  numbering prefix, with \<open>sub\<close>, where \<open>^\<close> allows a match at position 0 only), so the
  anchor is the start of the string; \<open>$\<close> is \<open>Eos\<close>.
\<close>

definition SECTION_HEADER_PATTERN :: regex where
  \<comment> \<open>\<open>^(#{1,6})\s*((?:\d+\.)*\d*\.?\s*)?(.+)$\<close>\<close>
  "SECTION_HEADER_PATTERN =
     Seq (Grp 1 (Rep 1 6 (Sym (lit CHR ''#''))))
    (Seq (Star (Sym isspace))
    (Seq (Opt (Grp 2 (Seq (Star (Seq (Plus (Sym isdigit)) (Sym (lit CHR ''.''))))
                     (Seq (Star (Sym isdigit))
                     (Seq (Opt (Sym (lit CHR ''.'')))
                          (Star (Sym isspace)))))))
    (Seq (Grp 3 (Plus (Sym anychar)))
         Eos)))"

definition TABLE_ROW_PATTERN :: regex where
  \<comment> \<open>\<open>^\|(.+)\|$\<close>\<close>
  "TABLE_ROW_PATTERN =
     Seq (Sym (lit CHR ''|'')) (Seq (Grp 1 (Plus (Sym anychar))) (Seq (Sym (lit CHR ''|'')) Eos))"

definition TABLE_SEPARATOR_PATTERN :: regex where
  \<comment> \<open>\<open>^\|(\s*[-:]+[-:]\s*\|)+$\<close>\<close>
  "TABLE_SEPARATOR_PATTERN =
     Seq (Sym (lit CHR ''|''))
    (Seq (Plus (Grp 1 (Seq (Star (Sym isspace))
                      (Seq (Plus (Sym (oneof ''-:'')))
                      (Seq (Sym (oneof ''-:''))
                      (Seq (Star (Sym isspace))
                           (Sym (lit CHR ''|''))))))))
         Eos)"

definition TABLE_CAPTION_PATTERN :: regex where
  \<comment> \<open>\<open>^(?:Table|TABLE)\s+[\d\.]+:?\s+(.+)$\<close>\<close>
  "TABLE_CAPTION_PATTERN =
     Seq (Alt (foldr (\<lambda>ch r. Seq (Sym (lit ch)) r) ''Table'' Eps)
              (foldr (\<lambda>ch r. Seq (Sym (lit ch)) r) ''TABLE'' Eps))
    (Seq (Plus (Sym isspace))
    (Seq (Plus (Sym (\<lambda>ch. isdigit ch \<or> ch = CHR ''.'')))
    (Seq (Opt (Sym (lit CHR '':'')))
    (Seq (Plus (Sym isspace))
    (Seq (Grp 1 (Plus (Sym anychar)))
         Eos)))))"

definition REFERENCE_PATTERN :: regex where
  \<comment> \<open>\<open>^\[(\d+)\]\s+(.+)$\<close>\<close>
  "REFERENCE_PATTERN =
     Seq (Sym (lit CHR ''[''))
    (Seq (Grp 1 (Plus (Sym isdigit)))
    (Seq (Sym (lit CHR '']''))
    (Seq (Plus (Sym isspace))
    (Seq (Grp 2 (Plus (Sym anychar)))
         Eos))))"

definition NUMBER_PREFIX_PATTERN :: regex where
  \<comment> \<open>\<open>^\d+\.(?:\d+\.)*\s*\<close>, the pattern of \<open>_clean_section_name\<close>\<close>
  "NUMBER_PREFIX_PATTERN =
     Seq (Plus (Sym isdigit))
    (Seq (Sym (lit CHR ''.''))
    (Seq (Star (Seq (Plus (Sym isdigit)) (Sym (lit CHR ''.''))))
         (Star (Sym isspace))))"

section \<open>The data model (models.py)\<close>

text \<open>
  A value that \<open>to_dict\<close> produces and \<open>from_dict\<close> reads: the dictionaries, lists,
  strings and integers of Python that JSON can carry. A dictionary is an association
  list in insertion order, with the keys distinct. Floating-point numbers are left out.
\<close>

datatype json =
    JNull
  | JBool bool
  | JInt int
  | JStr string
  | JList "json list"
  | JObj "(string \<times> json) list"

datatype error =
    ParserError string
  | KeyError string
  | TypeError
  | AttributeError
  | IllTyped

text \<open>
  \<open>KeyError\<close>, \<open>TypeError\<close> and \<open>AttributeError\<close> are the exceptions of Python.
  \<open>IllTyped\<close> is not one: \<open>from_dict\<close> stores whatever value it finds under a key,
  and the typed records below have no place for a value of another type than the
  dataclass declares. Such an input is reported as \<open>IllTyped\<close>, after every lookup of
  the same object that can raise; what Python does with it later is not modelled.
\<close>

record reference =
  ref_id :: string
  ref_text :: string

record table =
  table_id :: string
  caption :: string
  headers :: "string list"
  rows :: "string list list"

datatype section_tree =
  Section (name: string) (raw_name: string) (content: string) (level: int)
          (subsections: "section_tree list")

record 's document =
  title :: string
  sections :: "'s list"
  tables :: "table list"
  references :: "reference list"
  metadata :: "(string \<times> json) list"

text \<open>
  \<open>'s\<close> is the type of a section held by the document: a \<open>section_tree\<close> (a section with
  all it contains) for the functions of \<open>models.py\<close>, the address of a section object while the parser, which
  mutates sections through several references, is at work.
\<close>

definition getitem :: "json \<Rightarrow> string \<Rightarrow> error + json" where
  \<comment> \<open>\<open>data[key]\<close>\<close>
  "getitem data k =
     (case data of
        JObj kvs \<Rightarrow> (case map_of kvs k of Some v \<Rightarrow> Inr v | None \<Rightarrow> Inl (KeyError k))
      | _ \<Rightarrow> Inl TypeError)"

definition get :: "json \<Rightarrow> string \<Rightarrow> json \<Rightarrow> error + json" where
  \<comment> \<open>\<open>data.get(key, default)\<close>\<close>
  "get data k dflt =
     (case data of
        JObj kvs \<Rightarrow> Inr (case map_of kvs k of Some v \<Rightarrow> v | None \<Rightarrow> dflt)
      | _ \<Rightarrow> Inl AttributeError)"

definition as_str :: "json \<Rightarrow> error + string" where
  "as_str v = (case v of JStr s \<Rightarrow> Inr s | _ \<Rightarrow> Inl IllTyped)"

definition as_int :: "json \<Rightarrow> error + int" where
  "as_int v = (case v of JInt i \<Rightarrow> Inr i | _ \<Rightarrow> Inl IllTyped)"

fun collect :: "('a \<Rightarrow> error + 'b) \<Rightarrow> 'a list \<Rightarrow> error + 'b list" where
  \<comment> \<open>a list comprehension \<open>[f(x) for x in xs]\<close>: the first exception ends it\<close>
  "collect f [] = Inr []"
| "collect f (x # xs) =
     (case f x of Inl e \<Rightarrow> Inl e
      | Inr y \<Rightarrow> (case collect f xs of Inl e \<Rightarrow> Inl e | Inr ys \<Rightarrow> Inr (y # ys)))"

definition as_str_list :: "json \<Rightarrow> error + string list" where
  "as_str_list v = (case v of JList xs \<Rightarrow> collect as_str xs | _ \<Rightarrow> Inl IllTyped)"

definition as_str_list_list :: "json \<Rightarrow> error + string list list" where
  "as_str_list_list v = (case v of JList xs \<Rightarrow> collect as_str_list xs | _ \<Rightarrow> Inl IllTyped)"

definition iter_items :: "json \<Rightarrow> error + json list" where
  \<comment> \<open>\<open>for x in v\<close>: a list gives its items, a string its characters, a dictionary its
      keys; nothing else is iterable\<close>
  "iter_items v =
     (case v of
        JList xs \<Rightarrow> Inr xs
      | JStr s \<Rightarrow> Inr (map (\<lambda>ch. JStr [ch]) s)
      | JObj kvs \<Rightarrow> Inr (map (\<lambda>kv. JStr (fst kv)) kvs)
      | _ \<Rightarrow> Inl TypeError)"

definition and_then :: "'e + 'a \<Rightarrow> ('a \<Rightarrow> 'e + 'b) \<Rightarrow> 'e + 'b" where
  \<comment> \<open>run the next statement unless an exception has been raised\<close>
  "and_then r f = (case r of Inl e \<Rightarrow> Inl e | Inr x \<Rightarrow> f x)"

lemma and_then_cong [fundef_cong]:
  "r = r' \<Longrightarrow> (\<And>x. r' = Inr x \<Longrightarrow> f x = f' x) \<Longrightarrow> and_then r f = and_then r' f'"
  by (simp add: and_then_def split: sum.splits)

subsection \<open>Reference\<close>

definition reference_to_dict :: "reference \<Rightarrow> json" where
  "reference_to_dict r = JObj [(''id'', JStr (ref_id r)), (''text'', JStr (ref_text r))]"

definition reference_from_dict :: "json \<Rightarrow> error + reference" where
  "reference_from_dict data =
     and_then (getitem data ''id'') (\<lambda>i.
     and_then (getitem data ''text'') (\<lambda>t.
     and_then (as_str i) (\<lambda>i'.
     and_then (as_str t) (\<lambda>t'.
     Inr \<lparr>ref_id = i', ref_text = t'\<rparr>))))"

subsection \<open>Table\<close>

definition table_to_dict :: "table \<Rightarrow> json" where
  "table_to_dict t =
     JObj [(''id'', JStr (table_id t)),
           (''caption'', JStr (caption t)),
           (''headers'', JList (map JStr (headers t))),
           (''rows'', JList (map (\<lambda>row. JList (map JStr row)) (rows t)))]"

definition table_from_dict :: "json \<Rightarrow> error + table" where
  "table_from_dict data =
     and_then (getitem data ''id'') (\<lambda>i.
     and_then (getitem data ''caption'') (\<lambda>c.
     and_then (get data ''headers'' (JList [])) (\<lambda>h.
     and_then (get data ''rows'' (JList [])) (\<lambda>r.
     and_then (as_str i) (\<lambda>i'.
     and_then (as_str c) (\<lambda>c'.
     and_then (as_str_list h) (\<lambda>h'.
     and_then (as_str_list_list r) (\<lambda>r'.
     Inr \<lparr>table_id = i', caption = c', headers = h', rows = r'\<rparr>))))))))"

subsection \<open>Section\<close>

fun section_to_dict :: "section_tree \<Rightarrow> json" where
  "section_to_dict (Section n rn c l subs) =
     JObj [(''name'', JStr n),
           (''raw_name'', JStr rn),
           (''content'', JStr c),
           (''level'', JInt l),
           (''subsections'', JList (map section_to_dict subs))]"

lemma map_of_json_size:
  "map_of kvs k = Some v \<Longrightarrow> size v < Suc (size_list (size_prod (\<lambda>_. 0) size) kvs)"
  by (induction kvs) (auto split: if_splits)

function section_from_dict :: "json \<Rightarrow> error + section_tree"
  and sections_from_list :: "json list \<Rightarrow> error + section_tree list" where
  "section_from_dict data =
     and_then (getitem data ''name'') (\<lambda>n.
     and_then (get data ''raw_name'' (JStr [])) (\<lambda>rn.
     and_then (getitem data ''content'') (\<lambda>c.
     and_then (getitem data ''level'') (\<lambda>l.
     and_then (get data ''subsections'' (JList [])) (\<lambda>subs.
     and_then (case subs of
                 JList xs \<Rightarrow> sections_from_list xs
               | _ \<Rightarrow> and_then (iter_items subs)
                        (\<lambda>items. if items = [] then Inr [] else Inl TypeError)) (\<lambda>subs'.
     and_then (as_str n) (\<lambda>n'.
     and_then (as_str rn) (\<lambda>rn'.
     and_then (as_str c) (\<lambda>c'.
     and_then (as_int l) (\<lambda>l'.
     Inr (Section n' rn' c' l' subs')))))))))))"
| "sections_from_list [] = Inr []"
| "sections_from_list (x # xs) =
     and_then (section_from_dict x) (\<lambda>s.
     and_then (sections_from_list xs) (\<lambda>ss.
     Inr (s # ss)))"
  by pat_completeness auto
termination
  by (relation "measure (\<lambda>x. case x of Inl d \<Rightarrow> size d | Inr ds \<Rightarrow> size_list size ds)")
     (auto simp: get_def dest: map_of_json_size split: json.splits option.splits)

text \<open>
  The items of the list under \<open>subsections\<close> are read by \<open>sections_from_list\<close>. A value
  there that is not a list is iterated as Python does: an empty string or dictionary
  gives no subsection; the items of a longer one are strings, on which \<open>from_dict\<close>
  raises \<open>TypeError\<close> at \<open>data["name"]\<close>; nothing else is iterable.
\<close>

definition sections_from_iter :: "json \<Rightarrow> error + section_tree list" where
  \<comment> \<open>\<open>[Section.from_dict(x) for x in v]\<close>\<close>
  "sections_from_iter v =
     (case v of
        JList xs \<Rightarrow> sections_from_list xs
      | _ \<Rightarrow> and_then (iter_items v) (\<lambda>items. if items = [] then Inr [] else Inl TypeError))"

subsection \<open>Document\<close>

definition post_init :: "string \<Rightarrow> (string \<times> json) list \<Rightarrow> (string \<times> json) list" where
  \<comment> \<open>\<open>__post_init__\<close>; \<open>now\<close> is what \<open>datetime.now().isoformat()\<close> returns\<close>
  "post_init now md =
     (if map_of md ''created_at'' = None then md @ [(''created_at'', JStr now)] else md)"

definition document_to_dict :: "section_tree document \<Rightarrow> json" where
  "document_to_dict d =
     JObj [(''title'', JStr (title d)),
           (''sections'', JList (map section_to_dict (sections d))),
           (''metadata'',
              JObj (AList.update ''references'' (JList (map reference_to_dict (references d)))
                   (AList.update ''tables'' (JList (map table_to_dict (tables d)))
                   (metadata d))))]"

definition pop :: "json \<Rightarrow> string \<Rightarrow> json \<Rightarrow> json \<times> json" where
  \<comment> \<open>\<open>m.pop(key, default) if isinstance(m, dict) else default\<close>: the value and what is
      left of \<open>m\<close>\<close>
  "pop m k dflt =
     (case m of
        JObj kvs \<Rightarrow> (case map_of kvs k of
                      Some v \<Rightarrow> (v, JObj (AList.delete k kvs))
                    | None \<Rightarrow> (dflt, m))
      | _ \<Rightarrow> (dflt, m))"

definition document_from_dict :: "string \<Rightarrow> json \<Rightarrow> error + section_tree document" where
  "document_from_dict now data =
     and_then (get data ''metadata'' (JObj [])) (\<lambda>md0.
     (let (tables_data, md1) = pop md0 ''tables'' (JList []);
          (refs_data, md2) = pop md1 ''references'' (JList [])
      in and_then (getitem data ''title'') (\<lambda>t.
         and_then (get data ''sections'' (JList [])) (\<lambda>secs.
         and_then (sections_from_iter secs) (\<lambda>secs'.
         and_then (iter_items tables_data) (\<lambda>ts.
         and_then (collect table_from_dict ts) (\<lambda>ts'.
         and_then (iter_items refs_data) (\<lambda>rs.
         and_then (collect reference_from_dict rs) (\<lambda>rs'.
         and_then (as_str t) (\<lambda>t'.
         Inr \<lparr>title = t', sections = secs', tables = ts', references = rs',
              metadata = post_init now (case md2 of JObj kvs \<Rightarrow> kvs | _ \<Rightarrow> [])\<rparr>))))))))))"

section \<open>The parser (parser.py)\<close>

subsection \<open>Line classification\<close>

definition header_match :: "string \<Rightarrow> (string \<times> string option \<times> string) option" where
  \<comment> \<open>\<open>SECTION_HEADER_PATTERN.match(line)\<close> and its \<open>groups()\<close>; the second group is
      None when it took no part in the match\<close>
  "header_match line =
     (case first_match SECTION_HEADER_PATTERN line of
        None \<Rightarrow> None
      | Some c \<Rightarrow> (case (group c 1, group c 3) of
                    (Some hashes, Some title_part) \<Rightarrow> Some (hashes, group c 2, title_part)
                  | _ \<Rightarrow> None))"

definition table_line :: "string \<Rightarrow> bool" where
  \<comment> \<open>\<open>TABLE_ROW_PATTERN.match(line) or TABLE_SEPARATOR_PATTERN.match(line)\<close>\<close>
  "table_line line =
     (first_match TABLE_ROW_PATTERN line \<noteq> None \<or> first_match TABLE_SEPARATOR_PATTERN line \<noteq> None)"

definition reference_match :: "string \<Rightarrow> (string \<times> string) option" where
  "reference_match line =
     (case first_match REFERENCE_PATTERN line of
        None \<Rightarrow> None
      | Some c \<Rightarrow> (case (group c 1, group c 2) of
                    (Some rid, Some rtext) \<Rightarrow> Some (rid, rtext)
                  | _ \<Rightarrow> None))"

definition caption_match :: "string \<Rightarrow> bool" where
  "caption_match line = (first_match TABLE_CAPTION_PATTERN line \<noteq> None)"

subsection \<open>The parser object\<close>

text \<open>
  The parser reaches one \<open>Section\<close> object through several references (the list of the
  document or of the parent, \<open>section_stack\<close>, \<open>current_section\<close>) and mutates it through
  any of them. So the objects live in a store, \<open>heap\<close>, a reference is an index into it,
  and a new object is allocated at the end. The fields of an object are those of
  \<open>Section\<close>, with \<open>obj_\<close> before the name.
\<close>

record section_obj =
  obj_name :: string
  obj_raw_name :: string
  obj_content :: string
  obj_level :: int
  obj_subsections :: "nat list"

record parser =
  document :: "nat document option"
  current_section :: "nat option"
  section_stack :: "nat list"
  table_buffer :: "string list"
  is_in_table :: bool
  table_count :: nat
  seen_document_title :: bool
  expected_sections :: "string list"
  heap :: "section_obj list"

definition init :: parser where
  \<comment> \<open>\<open>DocumentParser.__init__\<close>\<close>
  "init =
     \<lparr>document = None,
      current_section = None,
      section_stack = [],
      table_buffer = [],
      is_in_table = False,
      table_count = 0,
      seen_document_title = False,
      expected_sections =
        [''Executive Summary'',
         ''Platform Overview'',
         ''Core Capabilities'',
         ''Data Management Architecture'',
         ''User Experience and Interface Design'',
         ''Technological Foundations'',
         ''Competitive Differentiation'',
         ''Lessons Learned''],
      heap = []\<rparr>"

text \<open>
  The methods below run inside \<open>parse_file\<close>, after it has assigned \<open>self.document\<close>;
  \<open>update_document\<close> applies a method of \<open>Document\<close> to that object.
\<close>

definition update_document :: "(nat document \<Rightarrow> nat document) \<Rightarrow> parser \<Rightarrow> parser" where
  "update_document f p = p\<lparr>document := map_option f (document p)\<rparr>"

definition add_section :: "nat \<Rightarrow> parser \<Rightarrow> parser" where
  \<comment> \<open>\<open>self.document.add_section(section)\<close>\<close>
  "add_section a = update_document (\<lambda>d. d\<lparr>sections := sections d @ [a]\<rparr>)"

definition add_table :: "table \<Rightarrow> parser \<Rightarrow> parser" where
  "add_table t = update_document (\<lambda>d. d\<lparr>tables := tables d @ [t]\<rparr>)"

definition add_reference :: "reference \<Rightarrow> parser \<Rightarrow> parser" where
  "add_reference r = update_document (\<lambda>d. d\<lparr>references := references d @ [r]\<rparr>)"

definition add_subsection :: "nat \<Rightarrow> nat \<Rightarrow> parser \<Rightarrow> parser" where
  \<comment> \<open>\<open>parent.add_subsection(section)\<close>\<close>
  "add_subsection parent a p =
     p\<lparr>heap := (heap p)[parent := (heap p ! parent)
                \<lparr>obj_subsections := obj_subsections (heap p ! parent) @ [a]\<rparr>]\<rparr>"

definition append_content :: "string list \<Rightarrow> parser \<Rightarrow> parser" where
  \<comment> \<open>\<open>self.current_section.content += "\n".join(current_content) + "\n"\<close>, under the
      guard \<open>current_content and self.current_section\<close>\<close>
  "append_content current_content p =
     (case current_section p of
        None \<Rightarrow> p
      | Some a \<Rightarrow>
          if current_content = [] then p
          else p\<lparr>heap := (heap p)[a := (heap p ! a)
                   \<lparr>obj_content := obj_content (heap p ! a)
                                     @ join [newline] current_content @ [newline]\<rparr>]\<rparr>)"

subsection \<open>Section headers\<close>

definition clean_section_name :: "string \<Rightarrow> string" where
  \<comment> \<open>\<open>re.sub\<close> removes the one match the anchored pattern can have\<close>
  "clean_section_name section_name =
     strip (case matches NUMBER_PREFIX_PATTERN section_name [] of
              [] \<Rightarrow> section_name
            | (c, rest) # _ \<Rightarrow> rest)"

fun find_parent :: "section_obj list \<Rightarrow> nat list \<Rightarrow> int \<Rightarrow> nat \<Rightarrow> nat option" where
  \<comment> \<open>the loop \<open>for i in range(len(self.section_stack) - 1, -1, -1)\<close>, with \<open>n\<close> indices
      still to visit: the index at which it breaks, None when it runs to its end\<close>
  "find_parent h stack lvl 0 = None"
| "find_parent h stack lvl (Suc i) =
     (if obj_level (h ! (stack ! i)) < lvl then Some i else find_parent h stack lvl i)"

definition make_raw_name :: "string option \<Rightarrow> string \<Rightarrow> string" where
  \<comment> \<open>the two assignments to \<open>raw_name\<close>; a group that is None or empty is false\<close>
  "make_raw_name number_part title_part =
     strip (case number_part of
              None \<Rightarrow> title_part
            | Some np \<Rightarrow> if np = [] then title_part else np @ '' '' @ title_part)"

definition process_section_header :: "string \<Rightarrow> int \<Rightarrow> string option \<Rightarrow> parser \<Rightarrow> parser" where
  "process_section_header title_part lvl number_part p =
     (let raw_name = make_raw_name number_part title_part
      in if lvl = 1 \<and> \<not> seen_document_title p then p\<lparr>seen_document_title := True\<rparr>
         else
          (let cleaned_name = clean_section_name raw_name;
               a = length (heap p);
               p1 = p\<lparr>heap := heap p @ [\<lparr>obj_name = cleaned_name, obj_raw_name = raw_name,
                                          obj_content = [], obj_level = lvl,
                                          obj_subsections = []\<rparr>]\<rparr>;
               p2 = (if lvl = 1 then (add_section a p1)\<lparr>section_stack := [a]\<rparr>
                     else (case find_parent (heap p1) (section_stack p1) lvl
                                            (length (section_stack p1)) of
                             Some i \<Rightarrow>
                               (add_subsection (section_stack p1 ! i) a p1)
                                 \<lparr>section_stack := take (i + 1) (section_stack p1) @ [a]\<rparr>
                           | None \<Rightarrow> (add_section a p1)\<lparr>section_stack := [a]\<rparr>))
           in p2\<lparr>current_section := Some a\<rparr>))"

subsection \<open>Tables\<close>

definition cells :: "string \<Rightarrow> string list" where
  \<comment> \<open>\<open>[cell.strip() for cell in line.strip("|").split("|")]\<close>\<close>
  "cells line = map strip (split_on CHR ''|'' (strip_chars ''|'' line))"

definition last_lines :: "nat \<Rightarrow> 'a list \<Rightarrow> 'a list" where
  \<comment> \<open>\<open>lines[-n:]\<close> for a positive \<open>n\<close>\<close>
  "last_lines n xs = drop (length xs - n) xs"

definition find_caption :: "string \<Rightarrow> parser \<Rightarrow> string" where
  \<comment> \<open>the caption of the table numbered \<open>n\<close> when none is passed: the first of the last
      five lines of the current section's content that has the form of a caption\<close>
  "find_caption dflt p =
     (case current_section p of
        None \<Rightarrow> dflt
      | Some a \<Rightarrow>
          (case List.find caption_match (last_lines 5 (splitlines (obj_content (heap p ! a)))) of
             Some line \<Rightarrow> strip line
           | None \<Rightarrow> dflt))"

definition process_table_buffer :: "string \<Rightarrow> parser \<Rightarrow> parser" where
  "process_table_buffer caption_arg p =
     (if table_buffer p = [] then p\<lparr>is_in_table := False\<rparr>
      else
       (let buf = table_buffer p;
            hdrs = (if 2 \<le> length buf
                    then (if CHR ''|'' \<in> set (buf ! 0) then cells (buf ! 0) else [])
                    else []);
            data_rows = (if 2 < length buf then drop 2 buf else []);
            rws = (if 2 \<le> length buf
                   then map cells (filter (\<lambda>row_line. row_line \<noteq> [] \<and> CHR ''|'' \<in> set row_line)
                                          data_rows)
                   else []);
            n = table_count p + 1;
            tid = ''T'' @ str_nat n;
            cap = (if caption_arg = [] then find_caption (''Table '' @ str_nat n) p
                   else caption_arg);
            p1 = add_table \<lparr>table_id = tid, caption = cap, headers = hdrs, rows = rws\<rparr>
                           (p\<lparr>table_count := n\<rparr>)
        in p1\<lparr>table_buffer := [], is_in_table := False\<rparr>))"

subsection \<open>Validation\<close>

definition found_sections :: "parser \<Rightarrow> string list" where
  \<comment> \<open>the list \<open>found_sections\<close> of \<open>_validate_document\<close>\<close>
  "found_sections p =
     (case document p of
        None \<Rightarrow> []
      | Some d \<Rightarrow>
          map (\<lambda>a. obj_name (heap p ! a)) (sections d)
          @ (if sections d \<noteq> [] \<and> obj_subsections (heap p ! (sections d ! 0)) \<noteq> []
             then map (\<lambda>a. obj_name (heap p ! a)) (obj_subsections (heap p ! (sections d ! 0)))
             else []))"

definition validate_document :: "parser \<Rightarrow> string list" where
  \<comment> \<open>\<open>_validate_document\<close> changes nothing and raises nothing. It logs; the value here is
      the list \<open>missing_sections\<close> of its last warning\<close>
  "validate_document p =
     filter (\<lambda>expected. \<not> list_ex (\<lambda>sec. contains (lower expected) (lower sec))
                                   (found_sections p))
            (expected_sections p)"

definition finalize_parsing :: "parser \<Rightarrow> parser" where
  \<comment> \<open>the call of \<open>_validate_document\<close> that ends it leaves the parser as it is\<close>
  "finalize_parsing p =
     (if is_in_table p \<and> table_buffer p \<noteq> [] then process_table_buffer [] p else p)"

subsection \<open>The scan\<close>

fun parse_line :: "parser \<times> string list \<Rightarrow> string \<Rightarrow> parser \<times> string list" where
  \<comment> \<open>one turn of the loop \<open>for line in f\<close>, on the parser and the local
      \<open>current_content\<close>\<close>
  "parse_line (p, current_content) raw =
     (let line = rstrip raw
      in case header_match line of
           Some (hashes, number_part, title_part) \<Rightarrow>
             (process_section_header title_part (int (length hashes)) number_part
                (append_content current_content p), [])
         | None \<Rightarrow>
             if table_line line then
               (let (p1, cc1) = (if current_content \<noteq> [] \<and> \<not> is_in_table p
                                 then (append_content current_content p, [])
                                 else (p, current_content))
                in (p1\<lparr>table_buffer := table_buffer p1 @ [line], is_in_table := True\<rparr>, cc1))
             else if is_in_table p \<and> strip line = [] then
               (process_table_buffer [] p, current_content)
             else
               (let p1 = (case reference_match line of
                            Some (rid, rtext) \<Rightarrow>
                              add_reference \<lparr>ref_id = rid, ref_text = rtext\<rparr> p
                          | None \<Rightarrow> p)
                in (p1, if current_section p1 \<noteq> None then current_content @ [line]
                        else current_content)))"

text \<open>
  What \<open>parse_file\<close> takes from outside the program: the clock, the file system (the
  lines of the file at a path, each with its line end, None where there is no file) and
  the title that \<open>Path(filepath).stem.replace("_", " ").title()\<close> makes of a path.
\<close>

record env =
  now :: string
  files :: "string \<Rightarrow> string list option"
  stem_title :: "string \<Rightarrow> string"

definition example_env :: "string list \<Rightarrow> env" where
  \<comment> \<open>an environment for the examples: one file, \<open>doc.md\<close>, with the given lines\<close>
  "example_env ls =
     \<lparr>now = ''2026-01-01T00:00:00'',
      files = (\<lambda>path. if path = ''doc.md'' then Some ls else None),
      stem_title = (\<lambda>path. ''Doc'')\<rparr>"

definition new_document :: "string \<Rightarrow> string \<Rightarrow> nat document" where
  \<comment> \<open>\<open>Document(title=t)\<close>, with its \<open>__post_init__\<close>\<close>
  "new_document clock t =
     \<lparr>title = t, sections = [], tables = [], references = [], metadata = post_init clock []\<rparr>"

definition scan :: "parser \<Rightarrow> string list \<Rightarrow> parser" where
  \<comment> \<open>the body of \<open>with open(...)\<close>: the loop, the last flush, \<open>_finalize_parsing\<close>\<close>
  "scan p ls =
     (let (p1, current_content) = foldl parse_line (p, []) ls
      in finalize_parsing (append_content current_content p1))"

definition parse_file ::
  "env \<Rightarrow> parser \<Rightarrow> string \<Rightarrow> string option \<Rightarrow> error + (nat document \<times> parser)" where
  \<comment> \<open>the result is the document returned and the parser object after the call. Without
      a document the \<open>logger.info\<close> calls that end the \<open>try\<close> block raise, and the handler
      turns that into a \<open>ParserError\<close>\<close>
  "parse_file e p filepath title_arg =
     (case files e filepath of
        None \<Rightarrow> Inl (ParserError (''File does not exist: '' @ filepath))
      | Some ls \<Rightarrow>
          (let t = (case title_arg of
                      None \<Rightarrow> stem_title e filepath
                    | Some ta \<Rightarrow> if ta = [] then stem_title e filepath else ta);
               p' = scan (p\<lparr>document := Some (new_document (now e) t)\<rparr>) ls
           in case document p' of
                None \<Rightarrow> Inl (ParserError (''Error parsing file '' @ filepath))
              | Some d \<Rightarrow> Inr (d, p')))"

declare parse_line.simps [simp del]

definition parse_document :: "env \<Rightarrow> string \<Rightarrow> string option \<Rightarrow> error + (nat document \<times> parser)" where
  "parse_document e filepath title_arg = parse_file e init filepath title_arg"

subsection \<open>Observations used in the properties\<close>

definition doc_tables :: "parser \<Rightarrow> table list option" where
  \<comment> \<open>the tables of the document the parser is building\<close>
  "doc_tables p = map_option tables (document p)"

definition new_table :: "string \<Rightarrow> parser \<Rightarrow> table" where
  \<comment> \<open>the table that \<open>process_table_buffer\<close> makes of a buffer that is not empty\<close>
  "new_table cap p =
     \<lparr>table_id = ''T'' @ str_nat (table_count p + 1),
      caption = (if cap = [] then find_caption (''Table '' @ str_nat (table_count p + 1)) p
                 else cap),
      headers = (if 2 \<le> length (table_buffer p)
                 then (if CHR ''|'' \<in> set (table_buffer p ! 0) then cells (table_buffer p ! 0)
                       else [])
                 else []),
      rows = (if 2 \<le> length (table_buffer p)
              then map cells (filter (\<lambda>row_line. row_line \<noteq> [] \<and> CHR ''|'' \<in> set row_line)
                                     (drop 2 (table_buffer p)))
              else [])\<rparr>"

definition table_ids_from :: "nat \<Rightarrow> parser \<Rightarrow> bool" where
  \<comment> \<open>the parser has a document, its tables are numbered from \<open>c + 1\<close> on, and
      \<open>table_count\<close> is the number of the last one\<close>
  "table_ids_from c p =
     (case document p of
        None \<Rightarrow> False
      | Some d \<Rightarrow> table_count p = c + length (tables d)
                \<and> map table_id (tables d)
                  = map (\<lambda>i. ''T'' @ str_nat i) [Suc c ..< Suc (c + length (tables d))])"

definition set_metadata :: "(string \<times> json) list \<Rightarrow> parser \<Rightarrow> parser" where
  \<comment> \<open>the parser with the metadata of its document replaced\<close>
  "set_metadata md = update_document (\<lambda>d. d\<lparr>metadata := md\<rparr>)"

definition levels_ok :: "section_obj list \<Rightarrow> bool" where
  \<comment> \<open>every subsection of every section object is an object of the store, of a level
      above its parent's\<close>
  "levels_ok h =
     (\<forall>a < length h. \<forall>c \<in> set (obj_subsections (h ! a)).
        c < length h \<and> obj_level (h ! a) < obj_level (h ! c))"

definition refs_ok :: "parser \<Rightarrow> bool" where
  \<comment> \<open>every reference the parser holds is to an object of the store\<close>
  "refs_ok p =
     ((\<forall>a \<in> set (section_stack p). a < length (heap p))
      \<and> (\<forall>a. current_section p = Some a \<longrightarrow> a < length (heap p))
      \<and> (\<forall>d. document p = Some d \<longrightarrow> (\<forall>a \<in> set (sections d). a < length (heap p))))"

inductive in_tree :: "section_obj list \<Rightarrow> nat list \<Rightarrow> nat \<Rightarrow> bool" for h roots where
  \<comment> \<open>the section objects of the tree below the sections \<open>roots\<close> of a document\<close>
  root: "a \<in> set roots \<Longrightarrow> in_tree h roots a"
| child: "in_tree h roots a \<Longrightarrow> c \<in> set (obj_subsections (h ! a)) \<Longrightarrow> in_tree h roots c"

inductive reachable_parser :: "parser \<Rightarrow> bool" where
  \<comment> \<open>the states of a \<open>DocumentParser\<close>: a new one, and one after a call of \<open>parse_file\<close>
      that returned\<close>
  new: "reachable_parser init"
| call: "reachable_parser p \<Longrightarrow> parse_file e p filepath title_arg = Inr (d, p')
         \<Longrightarrow> reachable_parser p'"



definition kept :: "nat \<Rightarrow> string \<Rightarrow> parser \<times> string list \<Rightarrow> bool" where
  \<comment> \<open>the line \<open>l\<close> is on its way into the content of the section object \<open>a\<close>: it waits in
      \<open>current_content\<close> while \<open>a\<close> is the current section, or it is in the content, followed
      by a newline\<close>
  "kept a l st =
     (a < length (heap (fst st))
      \<and> ((l \<in> set (snd st) \<and> current_section (fst st) = Some a)
         \<or> sublist (l @ [newline]) (obj_content (heap (fst st) ! a))))"





section \<open>Serialization round trip\<close>

lemma and_then_Inr [simp]: "and_then (Inr x) f = f x"
  by (simp add: and_then_def)

lemma and_then_Inl [simp]: "and_then (Inl e) f = Inl e"
  by (simp add: and_then_def)

lemma collect_map:
  "(\<And>x. x \<in> set xs \<Longrightarrow> f (g x) = Inr x) \<Longrightarrow> collect f (map g xs) = Inr xs"
  by (induction xs) simp_all

lemma as_str_JStr [simp]: "as_str (JStr s) = Inr s"
  by (simp add: as_str_def)

lemma as_str_list_roundtrip [simp]: "as_str_list (JList (map JStr xs)) = Inr xs"
  by (simp add: as_str_list_def collect_map)

lemma as_str_list_list_roundtrip [simp]:
  "as_str_list_list (JList (map (\<lambda>row. JList (map JStr row)) xss)) = Inr xss"
  by (simp add: as_str_list_list_def collect_map)

lemma reference_roundtrip: "reference_from_dict (reference_to_dict r) = Inr r"
  by (simp add: reference_from_dict_def reference_to_dict_def getitem_def)

lemma table_roundtrip: "table_from_dict (table_to_dict t) = Inr t"
  by (simp add: table_from_dict_def table_to_dict_def getitem_def get_def)

lemma sections_from_list_map:
  "(\<And>s. s \<in> set ss \<Longrightarrow> section_from_dict (section_to_dict s) = Inr s)
   \<Longrightarrow> sections_from_list (map section_to_dict ss) = Inr ss"
  by (induction ss) simp_all

lemma section_roundtrip: "section_from_dict (section_to_dict s) = Inr s"
proof (induction s)
  case (Section n rn c l subs)
  have "sections_from_list (map section_to_dict subs) = Inr subs"
    using Section.IH by (rule sections_from_list_map)
  then show ?case
    by (simp add: getitem_def get_def as_int_def)
qed

lemma sections_roundtrip: "sections_from_list (map section_to_dict ss) = Inr ss"
  by (rule sections_from_list_map) (rule section_roundtrip)

lemma sections_iter_roundtrip:
  "sections_from_iter (JList (map section_to_dict ss)) = Inr ss"
  by (simp add: sections_from_iter_def sections_roundtrip)

lemma pop_tables:
  "pop (JObj (AList.update ''references'' r (AList.update ''tables'' t md))) ''tables'' dflt
   = (t, JObj (AList.update ''references'' r (AList.delete ''tables'' md)))"
  by (simp add: pop_def update_conv' delete_update delete_update_same)

lemma pop_references:
  "pop (JObj (AList.update ''references'' r md)) ''references'' dflt
   = (r, JObj (AList.delete ''references'' md))"
  by (simp add: pop_def update_conv' delete_update delete_update_same)

lemma document_from_to_dict:
  "document_from_dict clock (document_to_dict d)
   = Inr (d\<lparr>metadata := post_init clock (AList.delete ''references''
                                           (AList.delete ''tables'' (metadata d)))\<rparr>)"
  by (simp add: document_from_dict_def document_to_dict_def get_def getitem_def pop_tables
      pop_references sections_iter_roundtrip iter_items_def collect_map table_roundtrip
      reference_roundtrip)

text \<open>
  C4. For every document, \<open>from_dict\<close> of its \<open>to_dict\<close> raises nothing and returns a
  document with the same title, the same sections (each with its name, raw name, content,
  level and subsections, to any depth), the same tables in the same order and the same
  references in the same order, although \<open>to_dict\<close> puts the tables and the references
  under the key \<open>metadata\<close>. \<open>to_json\<close> and \<open>from_json\<close> pass the same dictionary through
  \<open>json.dumps\<close> and \<open>json.loads\<close> of the standard library.
\<close>

theorem document_roundtrip:
  "\<exists>d'. document_from_dict clock (document_to_dict d) = Inr d'
        \<and> title d' = title d \<and> sections d' = sections d
        \<and> tables d' = tables d \<and> references d' = references d"
  by (simp add: document_from_to_dict)

section \<open>The parser step by step\<close>

lemma update_document_fields [simp]:
  "document (update_document f p) = map_option f (document p)"
  "current_section (update_document f p) = current_section p"
  "section_stack (update_document f p) = section_stack p"
  "table_buffer (update_document f p) = table_buffer p"
  "is_in_table (update_document f p) = is_in_table p"
  "table_count (update_document f p) = table_count p"
  "seen_document_title (update_document f p) = seen_document_title p"
  "expected_sections (update_document f p) = expected_sections p"
  "heap (update_document f p) = heap p"
  by (simp_all add: update_document_def)

lemma append_content_fields [simp]:
  "document (append_content cc p) = document p"
  "current_section (append_content cc p) = current_section p"
  "section_stack (append_content cc p) = section_stack p"
  "table_buffer (append_content cc p) = table_buffer p"
  "is_in_table (append_content cc p) = is_in_table p"
  "table_count (append_content cc p) = table_count p"
  "seen_document_title (append_content cc p) = seen_document_title p"
  "expected_sections (append_content cc p) = expected_sections p"
  "length (heap (append_content cc p)) = length (heap p)"
  by (simp_all add: append_content_def split: option.splits)

lemma process_section_header_tables [simp]:
  "table_buffer (process_section_header tp lvl np p) = table_buffer p"
  "is_in_table (process_section_header tp lvl np p) = is_in_table p"
  "table_count (process_section_header tp lvl np p) = table_count p"
  "expected_sections (process_section_header tp lvl np p) = expected_sections p"
  "map_option tables (document (process_section_header tp lvl np p)) = map_option tables (document p)"
  "map_option references (document (process_section_header tp lvl np p)) = map_option references (document p)"
  "map_option metadata (document (process_section_header tp lvl np p)) = map_option metadata (document p)"
  "map_option title (document (process_section_header tp lvl np p)) = map_option title (document p)"
  by (simp_all add: process_section_header_def Let_def add_section_def add_subsection_def
      option.map_comp comp_def split: option.splits)

lemma process_table_buffer_empty:
  "table_buffer p = [] \<Longrightarrow> process_table_buffer cap p = p\<lparr>is_in_table := False\<rparr>"
  by (simp add: process_table_buffer_def)

lemma process_table_buffer_nonempty:
  assumes "table_buffer p \<noteq> []"
  shows "process_table_buffer cap p
         = (add_table (new_table cap p) (p\<lparr>table_count := table_count p + 1\<rparr>))
             \<lparr>table_buffer := [], is_in_table := False\<rparr>"
  using assms by (simp add: process_table_buffer_def Let_def new_table_def)

lemma parse_line_cases [case_names hdr tbl blank plain]:
  assumes "\<And>hashes np tp.
             header_match (rstrip raw) = Some (hashes, np, tp) \<Longrightarrow>
             parse_line (p, cc) raw
             = (process_section_header tp (int (length hashes)) np (append_content cc p), []) \<Longrightarrow> R"
    and "header_match (rstrip raw) = None \<Longrightarrow> table_line (rstrip raw) \<Longrightarrow>
         parse_line (p, cc) raw
         = ((if cc \<noteq> [] \<and> \<not> is_in_table p then append_content cc p else p)
              \<lparr>table_buffer := table_buffer p @ [rstrip raw], is_in_table := True\<rparr>,
            if cc \<noteq> [] \<and> \<not> is_in_table p then [] else cc) \<Longrightarrow> R"
    and "header_match (rstrip raw) = None \<Longrightarrow> \<not> table_line (rstrip raw) \<Longrightarrow>
         is_in_table p \<Longrightarrow> strip (rstrip raw) = [] \<Longrightarrow>
         parse_line (p, cc) raw = (process_table_buffer [] p, cc) \<Longrightarrow> R"
    and "header_match (rstrip raw) = None \<Longrightarrow> \<not> table_line (rstrip raw) \<Longrightarrow>
         \<not> (is_in_table p \<and> strip (rstrip raw) = []) \<Longrightarrow>
         parse_line (p, cc) raw
         = ((case reference_match (rstrip raw) of
               Some (rid, rtext) \<Rightarrow> add_reference \<lparr>ref_id = rid, ref_text = rtext\<rparr> p
             | None \<Rightarrow> p),
            if current_section p \<noteq> None then cc @ [rstrip raw] else cc) \<Longrightarrow> R"
  shows R
proof (cases "header_match (rstrip raw)")
  case (Some t)
  then obtain hashes np tp where "header_match (rstrip raw) = Some (hashes, np, tp)"
    by (cases t) auto
  then show R
    using assms(1) by (simp add: parse_line.simps)
next
  case None
  show R
  proof (cases "table_line (rstrip raw)")
    case True
    with None show R
      using assms(2) by (simp add: parse_line.simps)
  next
    case False
    show R
    proof (cases "is_in_table p \<and> strip (rstrip raw) = []")
      case True
      with None False show R
        using assms(3) by (simp add: parse_line.simps)
    next
      case no: False
      have cs: "current_section (case reference_match (rstrip raw) of
               Some (rid, rtext) \<Rightarrow> add_reference \<lparr>ref_id = rid, ref_text = rtext\<rparr> p
             | None \<Rightarrow> p) = current_section p"
        by (simp add: add_reference_def split: option.splits)
      have "parse_line (p, cc) raw
         = ((case reference_match (rstrip raw) of
               Some (rid, rtext) \<Rightarrow> add_reference \<lparr>ref_id = rid, ref_text = rtext\<rparr> p
             | None \<Rightarrow> p),
            if current_section p \<noteq> None then cc @ [rstrip raw] else cc)"
        using None False no by (auto simp add: parse_line.simps Let_def cs)
      then show R
        by (rule assms(4) [OF None False no])
    qed
  qed
qed

lemma foldl_parse_line_inv:
  "I st \<Longrightarrow> (\<And>p cc l. I (p, cc) \<Longrightarrow> I (parse_line (p, cc) l)) \<Longrightarrow> I (foldl parse_line st ls)"
proof (induction ls arbitrary: st)
  case Nil
  then show ?case by simp
next
  case (Cons l ls)
  obtain p cc where "st = (p, cc)" by (cases st)
  with Cons show ?case by simp
qed

lemma rstrip_last: "rstrip s \<noteq> [] \<Longrightarrow> \<not> isspace (last (rstrip s))"
  unfolding rstrip_def
  by (metis hd_dropWhile last_rev rev_is_Nil_conv)

lemma rstrip_idem [simp]: "rstrip (rstrip s) = rstrip s"
proof (cases "rstrip s = []")
  case True
  then show ?thesis by (simp add: rstrip_def)
next
  case False
  then have "\<not> isspace (last (rstrip s))" by (rule rstrip_last)
  with False have "dropWhile isspace (rev (rstrip s)) = rev (rstrip s)"
    by (cases "rev (rstrip s)") (auto simp: last_rev hd_rev)
  then show ?thesis by (simp add: rstrip_def)
qed

lemma strip_Nil [simp]: "strip [] = []"
  by (simp add: strip_def rstrip_def)

lemma strip_rstrip_Nil [simp]: "strip (rstrip s) = [] \<longleftrightarrow> rstrip s = []"
proof
  assume a: "strip (rstrip s) = []"
  show "rstrip s = []"
  proof (rule ccontr)
    assume ne: "rstrip s \<noteq> []"
    then have "\<not> isspace (last (rstrip s))" by (rule rstrip_last)
    moreover from a have "\<forall>c\<in>set (rstrip s). isspace c"
      by (simp add: strip_def dropWhile_eq_Nil_conv)
    ultimately show False using ne last_in_set by blast
  qed
next
  assume "rstrip s = []"
  then show "strip (rstrip s) = []" by simp
qed

lemma header_match_Nil [simp]: "header_match [] = None"
  by code_simp

lemma table_line_Nil [simp]: "\<not> table_line []"
  by code_simp

lemma process_table_buffer_fields [simp]:
  "current_section (process_table_buffer cap p) = current_section p"
  "section_stack (process_table_buffer cap p) = section_stack p"
  "table_buffer (process_table_buffer cap p) = []"
  "is_in_table (process_table_buffer cap p) = False"
  "seen_document_title (process_table_buffer cap p) = seen_document_title p"
  "expected_sections (process_table_buffer cap p) = expected_sections p"
  "heap (process_table_buffer cap p) = heap p"
  by (simp_all add: process_table_buffer_def Let_def add_table_def)

lemma process_table_buffer_tables:
  "table_buffer p \<noteq> [] \<Longrightarrow>
   doc_tables (process_table_buffer cap p)
   = map_option (\<lambda>ts. ts @ [\<lparr>table_id = ''T'' @ str_nat (table_count p + 1),
                                caption = caption (new_table cap p), headers = headers (new_table cap p), rows = rows (new_table cap p)\<rparr>]) (doc_tables p)"
  by (simp add: process_table_buffer_nonempty doc_tables_def add_table_def option.map_comp comp_def new_table_def)

lemma parse_line_blank:
  assumes "rstrip raw = []" and "is_in_table p"
  shows "fst (parse_line (p, cc) raw) = process_table_buffer [] p"
  using assms by (simp add: parse_line.simps)

lemma parse_line_header:
  assumes "header_match (rstrip raw) \<noteq> None"
  shows "table_buffer (fst (parse_line (p, cc) raw)) = table_buffer p
       \<and> is_in_table (fst (parse_line (p, cc) raw)) = is_in_table p
       \<and> table_count (fst (parse_line (p, cc) raw)) = table_count p
       \<and> doc_tables (fst (parse_line (p, cc) raw)) = doc_tables p"
  using assms by (cases rule: parse_line_cases [of raw p cc]) (simp_all add: doc_tables_def)

lemma parse_line_not_blank:
  assumes "\<not> (rstrip raw = [] \<and> is_in_table p)"
  shows "doc_tables (fst (parse_line (p, cc) raw)) = doc_tables p
       \<and> table_count (fst (parse_line (p, cc) raw)) = table_count p
       \<and> prefix (table_buffer p) (table_buffer (fst (parse_line (p, cc) raw)))
       \<and> (is_in_table p \<longrightarrow> is_in_table (fst (parse_line (p, cc) raw)))"
  using assms
  by (cases rule: parse_line_cases [of raw p cc])
     (auto simp add: doc_tables_def add_reference_def option.map_comp comp_def split: option.splits)

lemma process_table_buffer_count:
  "table_buffer p \<noteq> [] \<Longrightarrow> table_count (process_table_buffer cap p) = table_count p + 1"
  by (simp add: process_table_buffer_def Let_def add_table_def)

lemma process_table_buffer_appends:
  "table_buffer p \<noteq> [] \<Longrightarrow>
   \<exists>t. table_id t = ''T'' @ str_nat (table_count p + 1)
     \<and> document (process_table_buffer cap p)
       = map_option (\<lambda>d. d\<lparr>tables := tables d @ [t]\<rparr>) (document p)"
  by (rule exI [of _ "new_table cap p"])
     (simp add: process_table_buffer_nonempty add_table_def, simp add: new_table_def)

lemma table_ids_process_table_buffer:
  assumes "table_ids_from c p"
  shows "table_ids_from c (process_table_buffer cap p)"
proof (cases "table_buffer p = []")
  case True
  with assms show ?thesis
    by (auto simp add: process_table_buffer_empty table_ids_from_def simp del: upt_Suc
        split: option.splits)
next
  case False
  from assms obtain d where d: "document p = Some d"
    and cnt: "table_count p = c + length (tables d)"
    and ids: "map table_id (tables d)
              = map (\<lambda>i. ''T'' @ str_nat i) [Suc c ..< Suc (c + length (tables d))]"
    by (auto simp: table_ids_from_def split: option.splits)
  from process_table_buffer_appends [OF False, of cap] d obtain t
    where t: "table_id t = ''T'' @ str_nat (table_count p + 1)"
      and doc: "document (process_table_buffer cap p) = Some (d\<lparr>tables := tables d @ [t]\<rparr>)"
    by auto
  show ?thesis
    using t doc cnt ids process_table_buffer_count [OF False, of cap]
    by (simp add: table_ids_from_def)
qed

lemma table_ids_cong:
  "table_ids_from c p \<Longrightarrow> doc_tables p' = doc_tables p \<Longrightarrow> table_count p' = table_count p
   \<Longrightarrow> table_ids_from c p'"
  by (auto simp: table_ids_from_def doc_tables_def split: option.splits)

lemma table_ids_parse_line:
  assumes "table_ids_from c p"
  shows "table_ids_from c (fst (parse_line (p, cc) raw))"
proof (cases "rstrip raw = [] \<and> is_in_table p")
  case True
  then show ?thesis
    using assms by (simp add: parse_line_blank table_ids_process_table_buffer)
next
  case False
  then show ?thesis
    using assms parse_line_not_blank [of raw p cc] by (blast intro: table_ids_cong)
qed

lemma table_ids_foldl:
  "table_ids_from c (fst st) \<Longrightarrow> table_ids_from c (fst (foldl parse_line st ls))"
proof (induction ls arbitrary: st)
  case Nil
  then show ?case by simp
next
  case (Cons l ls)
  obtain p cc where st: "st = (p, cc)" by (cases st)
  with Cons.prems have "table_ids_from c (fst (parse_line (p, cc) l))"
    by (simp add: table_ids_parse_line)
  then show ?case
    using Cons.IH st by simp
qed

lemma table_ids_scan:
  assumes "table_ids_from c p"
  shows "table_ids_from c (scan p ls)"
proof -
  obtain p1 cc where f: "foldl parse_line (p, []) ls = (p1, cc)"
    by (cases "foldl parse_line (p, []) ls")
  have "table_ids_from c p1"
    using table_ids_foldl [of c "(p, [])" ls] assms f by simp
  then have "table_ids_from c (append_content cc p1)"
    by (rule table_ids_cong) (simp_all add: doc_tables_def)
  then have "table_ids_from c (finalize_parsing (append_content cc p1))"
    by (simp add: finalize_parsing_def table_ids_process_table_buffer)
  with f show ?thesis
    by (simp add: scan_def)
qed

lemma parse_file_table_ids:
  assumes "parse_file e p filepath title_arg = Inr (d, p')"
  shows "document p' = Some d \<and> table_ids_from (table_count p) p'"
proof -
  from assms obtain ls t where p': "p' = scan (p\<lparr>document := Some (new_document (now e) t)\<rparr>) ls"
    and d: "document p' = Some d"
    by (auto simp: parse_file_def Let_def split: option.splits)
  have "table_ids_from (table_count p) (p\<lparr>document := Some (new_document (now e) t)\<rparr>)"
    by (simp add: table_ids_from_def new_document_def)
  then show ?thesis
    using p' d by (simp add: table_ids_scan)
qed

lemma digit_char_inj: "a < 10 \<Longrightarrow> b < 10 \<Longrightarrow> digit_char a = digit_char b \<Longrightarrow> a = b"
proof -
  assume "a < 10" "b < 10" "digit_char a = digit_char b"
  moreover have "distinct ''0123456789''" by simp
  ultimately show ?thesis
    unfolding digit_char_def by (simp add: nth_eq_iff_index_eq)
qed

lemma str_nat_nonempty: "str_nat n \<noteq> []"
  by (subst str_nat.simps) simp

lemma str_nat_inj: "str_nat m = str_nat n \<Longrightarrow> m = n"
proof (induction m arbitrary: n rule: less_induct)
  case (less m)
  show ?case
  proof (cases "m < 10")
    case True
    show ?thesis
    proof (cases "n < 10")
      case n: True
      with True less.prems show ?thesis
        by (simp add: str_nat.simps [of m] str_nat.simps [of n] digit_char_inj)
    next
      case False
      with True less.prems str_nat_nonempty [of "n div 10"] show ?thesis
        by (simp add: str_nat.simps [of m] str_nat.simps [of n])
    qed
  next
    case False
    show ?thesis
    proof (cases "n < 10")
      case True
      with False less.prems str_nat_nonempty [of "m div 10"] show ?thesis
        by (simp add: str_nat.simps [of m] str_nat.simps [of n])
    next
      case n: False
      with False less.prems have "str_nat (m div 10) = str_nat (n div 10)"
        and "digit_char (m mod 10) = digit_char (n mod 10)"
        by (simp_all add: str_nat.simps [of m] str_nat.simps [of n])
      then have "m div 10 = n div 10" and "m mod 10 = n mod 10"
        using less.IH [of "m div 10" "n div 10"] False
        by (simp_all add: digit_char_inj)
      then show ?thesis
        by (metis div_mult_mod_eq)
    qed
  qed
qed

lemma distinct_ids: "distinct (map (\<lambda>i. ''T'' @ str_nat i) [a ..< b])"
  by (simp add: distinct_map inj_on_def str_nat_inj)

section \<open>Short table buffers\<close>

text \<open>
  C1, as the specification states it: a table buffer of fewer than two lines never gives a
  table. It fails for a buffer of one line. The file below has one table line; the
  document parsed from it has a table.
\<close>

theorem short_table_buffer_counterexample:
  "map_sum id (tables \<circ> fst) (parse_document (example_env [''| a |'']) ''doc.md'' None)
   = Inr [\<lparr>table_id = ''T1'', caption = ''Table 1'', headers = [], rows = []\<rparr>]"
  by code_simp

text \<open>
  C1, amended: \<open>process_table_buffer\<close> adds no table for an empty buffer; for a buffer of
  one line it adds a table that has the next identifier, a caption, no header cell and
  no row.
\<close>

theorem short_table_buffer:
  assumes "length (table_buffer p) < 2" and "document p = Some d"
  shows "document (process_table_buffer cap p)
         = Some (if table_buffer p = [] then d
                 else d\<lparr>tables := tables d @
                          [\<lparr>table_id = ''T'' @ str_nat (table_count p + 1),
                            caption = (if cap = []
                                       then find_caption (''Table '' @ str_nat (table_count p + 1)) p
                                       else cap),
                            headers = [], rows = []\<rparr>]\<rparr>)"
  using assms by (simp add: process_table_buffer_def Let_def add_table_def)

theorem short_table_buffer_witness:
  "document (process_table_buffer [] (init\<lparr>document := Some (new_document ''t'' ''Doc''),
                                        table_buffer := [''| a |''], is_in_table := True\<rparr>))
   = Some ((new_document ''t'' ''Doc'')
            \<lparr>tables := [\<lparr>table_id = ''T1'', caption = ''Table 1'', headers = [], rows = []\<rparr>]\<rparr>)"
  using short_table_buffer [of "init\<lparr>document := Some (new_document ''t'' ''Doc''),
                                        table_buffer := [''| a |''], is_in_table := True\<rparr>"
      "new_document ''t'' ''Doc''" "[]"]
  by (simp add: init_def new_document_def find_caption_def str_nat.simps digit_char_def)


section \<open>What ends a table\<close>

text \<open>
  C2, as the specification states it: a blank line, a header line or the end of the input
  ends the buffering of table lines, and a header line that follows a buffer that is not
  empty flushes it into a table first. It fails for the header line: below, the header
  comes after two table lines and the table line after it lands in the same table, as
  its only row.
\<close>

theorem header_flush_counterexample:
  "map_sum id (tables \<circ> fst)
     (parse_document (example_env [''| a |'', ''|--|'', ''## H'', ''| c |'']) ''doc.md'' None)
   = Inr [\<lparr>table_id = ''T1'', caption = ''Table 1'', headers = [''a''], rows = [[''c'']]\<rparr>]"
  by code_simp

text \<open>
  C2, amended: two events end the buffering, a blank line read while \<open>is_in_table\<close> is
  set and the end of the input. At a blank line the scan runs \<open>process_table_buffer\<close>.
  Every other line leaves the tables and the counter as they are and keeps the buffered
  lines (a table line is added to them); a header line in particular leaves buffer, flag,
  counter and tables unchanged. At the end of the input \<open>finalize_parsing\<close> runs
  \<open>process_table_buffer\<close> when the flag is set and the buffer is not empty, and nothing
  otherwise. \<open>process_table_buffer\<close> on a buffer that is not empty empties it, clears the
  flag and appends one table, with the next identifier.
\<close>

theorem table_buffer_termination:
  "(rstrip raw = [] \<and> is_in_table p \<longrightarrow>
      fst (parse_line (p, cc) raw) = process_table_buffer [] p)
   \<and> (\<not> (rstrip raw = [] \<and> is_in_table p) \<longrightarrow>
        doc_tables (fst (parse_line (p, cc) raw)) = doc_tables p
      \<and> table_count (fst (parse_line (p, cc) raw)) = table_count p
      \<and> prefix (table_buffer p) (table_buffer (fst (parse_line (p, cc) raw)))
      \<and> (is_in_table p \<longrightarrow> is_in_table (fst (parse_line (p, cc) raw))))
   \<and> (header_match (rstrip raw) \<noteq> None \<longrightarrow>
        table_buffer (fst (parse_line (p, cc) raw)) = table_buffer p
      \<and> is_in_table (fst (parse_line (p, cc) raw)) = is_in_table p
      \<and> table_count (fst (parse_line (p, cc) raw)) = table_count p
      \<and> doc_tables (fst (parse_line (p, cc) raw)) = doc_tables p)
   \<and> (is_in_table p \<and> table_buffer p \<noteq> [] \<longrightarrow>
        finalize_parsing p = process_table_buffer [] p)
   \<and> (\<not> (is_in_table p \<and> table_buffer p \<noteq> []) \<longrightarrow> finalize_parsing p = p)
   \<and> (table_buffer p \<noteq> [] \<longrightarrow>
        table_buffer (process_table_buffer [] p) = []
      \<and> \<not> is_in_table (process_table_buffer [] p)
      \<and> (\<exists>t. table_id t = ''T'' @ str_nat (table_count p + 1)
             \<and> doc_tables (process_table_buffer [] p)
               = map_option (\<lambda>ts. ts @ [t]) (doc_tables p)))"
proof -
  have "table_buffer p \<noteq> [] \<Longrightarrow> \<exists>t. table_id t = ''T'' @ str_nat (table_count p + 1)
             \<and> doc_tables (process_table_buffer [] p)
               = map_option (\<lambda>ts. ts @ [t]) (doc_tables p)"
    by (rule exI [of _ "\<lparr>table_id = ''T'' @ str_nat (table_count p + 1),
                                caption = caption (new_table [] p), headers = headers (new_table [] p), rows = rows (new_table [] p)\<rparr>"])
      (simp add: process_table_buffer_tables)
  moreover have "\<not> (rstrip raw = [] \<and> is_in_table p) \<longrightarrow>
        doc_tables (fst (parse_line (p, cc) raw)) = doc_tables p
      \<and> table_count (fst (parse_line (p, cc) raw)) = table_count p
      \<and> prefix (table_buffer p) (table_buffer (fst (parse_line (p, cc) raw)))
      \<and> (is_in_table p \<longrightarrow> is_in_table (fst (parse_line (p, cc) raw)))"
    using parse_line_not_blank [of raw p cc] by blast
  moreover have "header_match (rstrip raw) \<noteq> None \<longrightarrow>
        table_buffer (fst (parse_line (p, cc) raw)) = table_buffer p
      \<and> is_in_table (fst (parse_line (p, cc) raw)) = is_in_table p
      \<and> table_count (fst (parse_line (p, cc) raw)) = table_count p
      \<and> doc_tables (fst (parse_line (p, cc) raw)) = doc_tables p"
    using parse_line_header [of raw p cc] by blast
  moreover have "rstrip raw = [] \<and> is_in_table p \<longrightarrow>
      fst (parse_line (p, cc) raw) = process_table_buffer [] p"
    using parse_line_blank [of raw p cc] by blast
  moreover have "(is_in_table p \<and> table_buffer p \<noteq> [] \<longrightarrow>
        finalize_parsing p = process_table_buffer [] p)
   \<and> (\<not> (is_in_table p \<and> table_buffer p \<noteq> []) \<longrightarrow> finalize_parsing p = p)"
    by (simp add: finalize_parsing_def)
  moreover have "table_buffer (process_table_buffer [] p) = []
      \<and> \<not> is_in_table (process_table_buffer [] p)"
    by simp
  ultimately show ?thesis
    by blast
qed

theorem table_buffer_termination_witness:
  "table_buffer (fst (parse_line
     (init\<lparr>document := Some (new_document ''t'' ''Doc''), table_buffer := [''| a |'', ''|--|''],
           is_in_table := True\<rparr>, []) ''## H'')) = [''| a |'', ''|--|'']
   \<and> doc_tables (fst (parse_line
     (init\<lparr>document := Some (new_document ''t'' ''Doc''), table_buffer := [''| a |'', ''|--|''],
           is_in_table := True\<rparr>, []) ''## H'')) = Some []
   \<and> table_buffer (fst (parse_line
     (init\<lparr>document := Some (new_document ''t'' ''Doc''), table_buffer := [''| a |'', ''|--|''],
           is_in_table := True\<rparr>, []) [])) = []"
proof -
  have h: "header_match (rstrip ''## H'') \<noteq> None"
    by code_simp
  have b: "rstrip [] = []"
    by code_simp
  have d: "doc_tables (init\<lparr>document := Some (new_document ''t'' ''Doc''),
             table_buffer := [''| a |'', ''|--|''], is_in_table := True\<rparr>) = Some []"
    by (simp add: doc_tables_def new_document_def)
  show ?thesis
    using h b d
      table_buffer_termination [of "''## H''"
        "init\<lparr>document := Some (new_document ''t'' ''Doc''),
              table_buffer := [''| a |'', ''|--|''], is_in_table := True\<rparr>" "[]"]
      table_buffer_termination [of "[]"
        "init\<lparr>document := Some (new_document ''t'' ''Doc''),
              table_buffer := [''| a |'', ''|--|''], is_in_table := True\<rparr>" "[]"]
    by simp
qed

section \<open>Table identifiers\<close>

text \<open>
  C7, as the specification states it: the tables of every document that a parse produces
  have the identifiers T1, T2, ... It fails for a parser that has parsed before: the
  counter of a \<open>DocumentParser\<close> is set when the parser is made and never again. Below,
  the second call of \<open>parse_file\<close> on one parser gives a document whose only table is T2.
\<close>

theorem table_ids_counterexample:
  "map_sum id (map table_id \<circ> tables \<circ> fst)
     (parse_file (example_env [''| b |'', ''|--|''])
        (snd (projr (parse_file (example_env [''| a |'', ''|--|'']) init ''doc.md'' None)))
        ''doc.md'' None)
   = Inr [''T2'']"
  by code_simp

text \<open>
  C7, amended: the tables of a document that \<open>parse_file\<close> returns have, in the order of
  the list, the identifiers T\<open>c + 1\<close>, T\<open>c + 2\<close>, ... up to T\<open>c + k\<close>, where \<open>c\<close> is the
  counter of the parser when the call begins and \<open>k\<close> the number of tables; no two of
  them are equal, and the counter is \<open>c + k\<close> after the call. On a new parser, as
  \<open>parse_document\<close> makes one for every call, \<open>c\<close> is 0 and the identifiers are T1, T2, ...
\<close>

theorem table_ids_sequential:
  assumes "parse_file e p filepath title_arg = Inr (d, p')"
  shows "map table_id (tables d)
         = map (\<lambda>i. ''T'' @ str_nat i)
               [Suc (table_count p) ..< Suc (table_count p + length (tables d))]
       \<and> distinct (map table_id (tables d))
       \<and> table_count p' = table_count p + length (tables d)
       \<and> (p = init \<longrightarrow>
            map table_id (tables d)
            = map (\<lambda>i. ''T'' @ str_nat i) [1 ..< Suc (length (tables d))])"
proof -
  from parse_file_table_ids [OF assms]
  have doc: "document p' = Some d" and ids: "table_ids_from (table_count p) p'"
    by simp_all
  from ids doc have eq: "map table_id (tables d)
         = map (\<lambda>i. ''T'' @ str_nat i)
               [Suc (table_count p) ..< Suc (table_count p + length (tables d))]"
    and cnt: "table_count p' = table_count p + length (tables d)"
    by (simp_all add: table_ids_from_def)
  have dist: "distinct (map table_id (tables d))"
    unfolding eq by (rule distinct_ids)
  have new: "map table_id (tables d)
            = map (\<lambda>i. ''T'' @ str_nat i) [1 ..< Suc (length (tables d))]" if "p = init"
    using eq that by (simp add: init_def del: upt_Suc)
  from eq dist cnt new show ?thesis
    by blast
qed

theorem table_ids_sequential_witness:
  "map table_id (tables (fst (projr (parse_file
      (example_env [''| a |'', ''|--|'', [], ''| b |'']) init ''doc.md'' None))))
   = [''T1'', ''T2'']
   \<and> distinct (map table_id (tables (fst (projr (parse_file
      (example_env [''| a |'', ''|--|'', [], ''| b |'']) init ''doc.md'' None)))))"
proof -
  have "parse_file (example_env [''| a |'', ''|--|'', [], ''| b |'']) init ''doc.md'' None
        = Inr (fst (projr (parse_file
                 (example_env [''| a |'', ''|--|'', [], ''| b |'']) init ''doc.md'' None)),
               snd (projr (parse_file
                 (example_env [''| a |'', ''|--|'', [], ''| b |'']) init ''doc.md'' None)))"
    by code_simp
  from table_ids_sequential [OF this]
  have "distinct (map table_id (tables (fst (projr (parse_file
      (example_env [''| a |'', ''|--|'', [], ''| b |'']) init ''doc.md'' None)))))"
    by blast
  moreover have "map table_id (tables (fst (projr (parse_file
      (example_env [''| a |'', ''|--|'', [], ''| b |'']) init ''doc.md'' None))))
   = [''T1'', ''T2'']"
    by code_simp
  ultimately show ?thesis
    by blast
qed

section \<open>Determinism and the clock\<close>

lemma set_metadata_fields [simp]:
  "document (set_metadata md p) = map_option (\<lambda>d. d\<lparr>metadata := md\<rparr>) (document p)"
  "current_section (set_metadata md p) = current_section p"
  "section_stack (set_metadata md p) = section_stack p"
  "table_buffer (set_metadata md p) = table_buffer p"
  "is_in_table (set_metadata md p) = is_in_table p"
  "table_count (set_metadata md p) = table_count p"
  "seen_document_title (set_metadata md p) = seen_document_title p"
  "expected_sections (set_metadata md p) = expected_sections p"
  "heap (set_metadata md p) = heap p"
  by (simp_all add: set_metadata_def)








lemma add_reference_current_section [simp]:
  "current_section (add_reference r p) = current_section p"
  by (simp add: add_reference_def)









section \<open>The coverage check\<close>

lemma contains_sublist: "contains xs ys \<longleftrightarrow> sublist xs ys"
  by (induction ys) (simp_all add: sublist_Cons_right)

lemma found_sections_eq:
  assumes "document p = Some d"
  shows "found_sections p
         = map (\<lambda>a. obj_name (heap p ! a))
               (sections d @ (if sections d = [] then []
                              else obj_subsections (heap p ! hd (sections d))))"
  using assms by (cases "sections d") (simp_all add: found_sections_def)

text \<open>
  C6, as the specification states it: the check matches each expected name against the
  names of all sections of the document, at every depth. It fails: below, the section
  named Executive Summary is the subsection of the second top-level section, and the
  check reports that name, with the seven others, as missing.
\<close>

theorem validate_document_counterexample:
  "map_sum id (validate_document \<circ> snd)
     (parse_document (example_env [''## A'', ''## B'', ''### Executive Summary'']) ''doc.md'' None)
   = Inr [''Executive Summary'', ''Platform Overview'', ''Core Capabilities'',
          ''Data Management Architecture'', ''User Experience and Interface Design'',
          ''Technological Foundations'', ''Competitive Differentiation'', ''Lessons Learned'']
   \<and> map_sum id (sections \<circ> fst)
       (parse_document (example_env [''## A'', ''## B'', ''### Executive Summary'']) ''doc.md'' None)
     = Inr [0, 1]
   \<and> map_sum id (map obj_subsections \<circ> heap \<circ> snd)
       (parse_document (example_env [''## A'', ''## B'', ''### Executive Summary'']) ''doc.md'' None)
     = Inr [[], [2], []]
   \<and> map_sum id (map obj_name \<circ> heap \<circ> snd)
       (parse_document (example_env [''## A'', ''## B'', ''### Executive Summary'']) ''doc.md'' None)
     = Inr [''A'', ''B'', ''Executive Summary'']"
  by code_simp

text \<open>
  C6, amended: the check matches each expected name, without regard to case and as a
  substring, against the names of the top-level sections of the document and of the
  direct subsections of the first top-level section, and of no other section. The names
  without a match are the value of the check, in the order of the expected names; it
  raises nothing and changes nothing.
\<close>

theorem validate_document_scope:
  assumes "document p = Some d"
  shows "validate_document p
         = filter (\<lambda>expected.
                     \<forall>a \<in> set (sections d @ (if sections d = [] then []
                                              else obj_subsections (heap p ! hd (sections d)))).
                       \<not> sublist (lower expected) (lower (obj_name (heap p ! a))))
                  (expected_sections p)"
  unfolding validate_document_def found_sections_eq [OF assms] list_ex_iff contains_sublist
  by (rule filter_cong) auto

theorem validate_document_scope_witness:
  "filter (\<lambda>expected.
             \<forall>a \<in> set (sections ((new_document ''t'' ''Doc'')\<lparr>sections := [0, 1]\<rparr>) @ (if sections ((new_document ''t'' ''Doc'')\<lparr>sections := [0, 1]\<rparr>) = [] then []
                                      else obj_subsections (heap (init\<lparr>document := Some ((new_document ''t'' ''Doc'')\<lparr>sections := [0, 1]\<rparr>),
       heap := [\<lparr>obj_name = ''A'', obj_raw_name = ''A'', obj_content = [], obj_level = 2,
                 obj_subsections = [2]\<rparr>,
                \<lparr>obj_name = ''Lessons learned'', obj_raw_name = ''9. Lessons learned'',
                 obj_content = [], obj_level = 2, obj_subsections = []\<rparr>,
                \<lparr>obj_name = ''The core capabilities'', obj_raw_name = ''The core capabilities'',
                 obj_content = [], obj_level = 3, obj_subsections = []\<rparr>]\<rparr>) ! hd (sections ((new_document ''t'' ''Doc'')\<lparr>sections := [0, 1]\<rparr>))))).
               \<not> sublist (lower expected) (lower (obj_name (heap (init\<lparr>document := Some ((new_document ''t'' ''Doc'')\<lparr>sections := [0, 1]\<rparr>),
       heap := [\<lparr>obj_name = ''A'', obj_raw_name = ''A'', obj_content = [], obj_level = 2,
                 obj_subsections = [2]\<rparr>,
                \<lparr>obj_name = ''Lessons learned'', obj_raw_name = ''9. Lessons learned'',
                 obj_content = [], obj_level = 2, obj_subsections = []\<rparr>,
                \<lparr>obj_name = ''The core capabilities'', obj_raw_name = ''The core capabilities'',
                 obj_content = [], obj_level = 3, obj_subsections = []\<rparr>]\<rparr>) ! a))))
          (expected_sections (init\<lparr>document := Some ((new_document ''t'' ''Doc'')\<lparr>sections := [0, 1]\<rparr>),
       heap := [\<lparr>obj_name = ''A'', obj_raw_name = ''A'', obj_content = [], obj_level = 2,
                 obj_subsections = [2]\<rparr>,
                \<lparr>obj_name = ''Lessons learned'', obj_raw_name = ''9. Lessons learned'',
                 obj_content = [], obj_level = 2, obj_subsections = []\<rparr>,
                \<lparr>obj_name = ''The core capabilities'', obj_raw_name = ''The core capabilities'',
                 obj_content = [], obj_level = 3, obj_subsections = []\<rparr>]\<rparr>))
   = [''Executive Summary'', ''Platform Overview'', ''Data Management Architecture'',
      ''User Experience and Interface Design'', ''Technological Foundations'',
      ''Competitive Differentiation'']"
proof -
  have doc: "document (init\<lparr>document := Some ((new_document ''t'' ''Doc'')\<lparr>sections := [0, 1]\<rparr>),
       heap := [\<lparr>obj_name = ''A'', obj_raw_name = ''A'', obj_content = [], obj_level = 2,
                 obj_subsections = [2]\<rparr>,
                \<lparr>obj_name = ''Lessons learned'', obj_raw_name = ''9. Lessons learned'',
                 obj_content = [], obj_level = 2, obj_subsections = []\<rparr>,
                \<lparr>obj_name = ''The core capabilities'', obj_raw_name = ''The core capabilities'',
                 obj_content = [], obj_level = 3, obj_subsections = []\<rparr>]\<rparr>)
             = Some ((new_document ''t'' ''Doc'')\<lparr>sections := [0, 1]\<rparr>)"
    by simp
  have "validate_document (init\<lparr>document := Some ((new_document ''t'' ''Doc'')\<lparr>sections := [0, 1]\<rparr>),
       heap := [\<lparr>obj_name = ''A'', obj_raw_name = ''A'', obj_content = [], obj_level = 2,
                 obj_subsections = [2]\<rparr>,
                \<lparr>obj_name = ''Lessons learned'', obj_raw_name = ''9. Lessons learned'',
                 obj_content = [], obj_level = 2, obj_subsections = []\<rparr>,
                \<lparr>obj_name = ''The core capabilities'', obj_raw_name = ''The core capabilities'',
                 obj_content = [], obj_level = 3, obj_subsections = []\<rparr>]\<rparr>)
        = [''Executive Summary'', ''Platform Overview'', ''Data Management Architecture'',
      ''User Experience and Interface Design'', ''Technological Foundations'',
      ''Competitive Differentiation'']"
    by code_simp
  with validate_document_scope [OF doc, symmetric] show ?thesis
    by (rule trans)
qed
section \<open>Levels in the section tree\<close>

lemma find_parent_Some:
  "find_parent h st lvl n = Some i \<Longrightarrow> i < n \<and> obj_level (h ! (st ! i)) < lvl"
  by (induction n) (auto split: if_splits simp: less_Suc_eq)

lemma content_update_nth:
  "b < length h \<Longrightarrow>
   obj_subsections (h[a := (h ! a)\<lparr>obj_content := x\<rparr>] ! b) = obj_subsections (h ! b)
   \<and> obj_level (h[a := (h ! a)\<lparr>obj_content := x\<rparr>] ! b) = obj_level (h ! b)"
  by (cases "a = b") simp_all

lemma levels_ok_content:
  assumes "levels_ok h"
  shows "levels_ok (h[a := (h ! a)\<lparr>obj_content := x\<rparr>])"
  using assms unfolding levels_ok_def
  by (simp add: content_update_nth)

lemma levels_ok_append_content:
  "levels_ok (heap p) \<Longrightarrow> levels_ok (heap (append_content cc p))"
  by (auto simp: append_content_def levels_ok_content split: option.splits)

lemma refs_ok_append_content: "refs_ok p \<Longrightarrow> refs_ok (append_content cc p)"
  by (simp add: refs_ok_def)

lemma levels_ok_alloc:
  assumes "levels_ok h"
  shows "levels_ok (h @ [\<lparr>obj_name = n, obj_raw_name = r, obj_content = x, obj_level = l,
                           obj_subsections = []\<rparr>])"
  using assms unfolding levels_ok_def
  by (auto simp: nth_append less_Suc_eq)

lemma levels_ok_attach:
  assumes ok: "levels_ok h" and par: "parent < length h" and a: "a < length h"
    and lt: "obj_level (h ! parent) < obj_level (h ! a)"
  shows "levels_ok (h[parent := (h ! parent)\<lparr>obj_subsections := obj_subsections (h ! parent) @ [a]\<rparr>])"
  using assms unfolding levels_ok_def
  by (auto simp: nth_list_update)

lemma process_section_header_ok:
  assumes ok: "levels_ok (heap p)" and refs: "refs_ok p"
  shows "levels_ok (heap (process_section_header tp lvl np p))
       \<and> refs_ok (process_section_header tp lvl np p)"
proof (cases "lvl = 1 \<and> \<not> seen_document_title p")
  case True
  with ok refs show ?thesis
    by (simp add: process_section_header_def refs_ok_def)
next
  case False
  define cell where "cell = \<lparr>obj_name = clean_section_name (make_raw_name np tp),
     obj_raw_name = make_raw_name np tp, obj_content = [], obj_level = lvl,
     obj_subsections = []\<rparr>"
  define h1 where "h1 = heap p @ [cell]"
  have ok1: "levels_ok h1"
    using ok unfolding h1_def cell_def by (rule levels_ok_alloc)
  have len1: "length h1 = Suc (length (heap p))"
    by (simp add: h1_def)
  have new: "h1 ! length (heap p) = cell"
    by (simp add: h1_def)
  have top: "levels_ok (heap ((add_section (length (heap p)) (p\<lparr>heap := h1\<rparr>))
                \<lparr>section_stack := [length (heap p)], current_section := Some (length (heap p))\<rparr>))
        \<and> refs_ok ((add_section (length (heap p)) (p\<lparr>heap := h1\<rparr>))
                \<lparr>section_stack := [length (heap p)], current_section := Some (length (heap p))\<rparr>)"
    using ok1 refs by (auto simp: add_section_def refs_ok_def len1 less_Suc_eq)
  show ?thesis
  proof (cases "lvl = 1 \<or> find_parent h1 (section_stack p) lvl (length (section_stack p)) = None")
    case True
    with False top show ?thesis
      by (auto simp: process_section_header_def Let_def h1_def cell_def)
  next
    case nontop: False
    then obtain i where Some: "find_parent h1 (section_stack p) lvl (length (section_stack p)) = Some i"
      and lvl: "lvl \<noteq> 1"
      by auto
    from Some have i: "i < length (section_stack p)"
      and lt: "obj_level (h1 ! (section_stack p ! i)) < lvl"
      by (auto dest: find_parent_Some)
    from i refs have par: "section_stack p ! i < length (heap p)"
      by (simp add: refs_ok_def)
    have att: "levels_ok (h1[section_stack p ! i := (h1 ! (section_stack p ! i))
            \<lparr>obj_subsections := obj_subsections (h1 ! (section_stack p ! i)) @ [length (heap p)]\<rparr>])"
      using ok1 par lt by (intro levels_ok_attach) (simp_all add: len1 new cell_def)
    have stk: "\<forall>a \<in> set (take (Suc i) (section_stack p)). a < length (heap p)"
      using refs by (auto simp: refs_ok_def dest: in_set_takeD)
    have eq: "process_section_header tp lvl np p
        = (add_subsection (section_stack p ! i) (length (heap p)) (p\<lparr>heap := h1\<rparr>))
            \<lparr>section_stack := take (i + 1) (section_stack p) @ [length (heap p)],
             current_section := Some (length (heap p))\<rparr>"
      using False Some lvl
      by (simp add: process_section_header_def Let_def h1_def cell_def)
    show ?thesis
      unfolding eq using att stk refs
      by (auto simp: add_subsection_def refs_ok_def len1 less_Suc_eq)
  qed
qed

lemma process_table_buffer_ok:
  "levels_ok (heap p) \<and> refs_ok p
   \<Longrightarrow> levels_ok (heap (process_table_buffer cap p)) \<and> refs_ok (process_table_buffer cap p)"
  by (cases "table_buffer p = []")
     (auto simp: process_table_buffer_empty process_table_buffer_nonempty refs_ok_def
       add_table_def)

lemma parse_line_ok:
  assumes "levels_ok (heap p) \<and> refs_ok p"
  shows "levels_ok (heap (fst (parse_line (p, cc) raw))) \<and> refs_ok (fst (parse_line (p, cc) raw))"
proof (cases rule: parse_line_cases [of raw p cc])
  case (hdr hashes np tp)
  then show ?thesis
    using assms by (simp add: process_section_header_ok levels_ok_append_content
        refs_ok_append_content)
next
  case tbl
  have "refs_ok (q\<lparr>table_buffer := tb, is_in_table := b\<rparr>) = refs_ok q" for q tb b
    by (simp add: refs_ok_def)
  with tbl show ?thesis
    using assms by (simp add: levels_ok_append_content refs_ok_append_content)
next
  case blank
  then show ?thesis
    using assms by (simp add: process_table_buffer_ok)
next
  case plain
  then show ?thesis
    using assms
    by (cases "reference_match (rstrip raw)") (auto simp: refs_ok_def add_reference_def)
qed

lemma scan_ok:
  assumes "levels_ok (heap p) \<and> refs_ok p"
  shows "levels_ok (heap (scan p ls)) \<and> refs_ok (scan p ls)"
proof -
  have "levels_ok (heap (fst st)) \<and> refs_ok (fst st)
        \<Longrightarrow> levels_ok (heap (fst (foldl parse_line st ls)))
            \<and> refs_ok (fst (foldl parse_line st ls))" for st
  proof (induction ls arbitrary: st)
    case Nil
    then show ?case by simp
  next
    case (Cons l ls)
    obtain q cc where st: "st = (q, cc)" by (cases st)
    with Cons.prems have "levels_ok (heap (fst (parse_line (q, cc) l)))
        \<and> refs_ok (fst (parse_line (q, cc) l))"
      by (simp add: parse_line_ok)
    then show ?case
      using Cons.IH st by simp
  qed
  from this [of "(p, [])"] assms
  have "levels_ok (heap (fst (foldl parse_line (p, []) ls)))
        \<and> refs_ok (fst (foldl parse_line (p, []) ls))"
    by simp
  then show ?thesis
    by (simp add: scan_def split_beta finalize_parsing_def process_table_buffer_ok
        levels_ok_append_content refs_ok_append_content)
qed

lemma parse_file_ok:
  assumes "levels_ok (heap p) \<and> refs_ok p" and "parse_file e p filepath title_arg = Inr (d, p')"
  shows "levels_ok (heap p') \<and> refs_ok p'"
proof -
  from assms(2) obtain ls t where p': "p' = scan (p\<lparr>document := Some (new_document (now e) t)\<rparr>) ls"
    by (auto simp: parse_file_def Let_def split: option.splits)
  have "levels_ok (heap (p\<lparr>document := Some (new_document (now e) t)\<rparr>))
        \<and> refs_ok (p\<lparr>document := Some (new_document (now e) t)\<rparr>)"
    using assms(1) by (simp add: refs_ok_def new_document_def)
  then show ?thesis
    unfolding p' by (rule scan_ok)
qed

lemma reachable_parser_ok: "reachable_parser p \<Longrightarrow> levels_ok (heap p) \<and> refs_ok p"
proof (induction rule: reachable_parser.induct)
  case new
  show ?case by (simp add: init_def levels_ok_def refs_ok_def)
next
  case (call p e filepath title_arg d p')
  from parse_file_ok [OF call.IH call.hyps(2)] show ?case .
qed

lemma in_tree_bound:
  assumes "levels_ok h" and "\<forall>a \<in> set roots. a < length h" and "in_tree h roots a"
  shows "a < length h"
  using assms(3,1,2) by (induction rule: in_tree.induct) (auto simp: levels_ok_def)

text \<open>
  C3. In a document that \<open>parse_file\<close> returns, on a new parser or on one that has parsed
  before, every section of the tree has a level below the level of each of its direct
  subsections.
\<close>

theorem child_level_greater:
  assumes "reachable_parser p"
    and "parse_file e p filepath title_arg = Inr (d, p')"
    and "in_tree (heap p') (sections d) a"
    and "c \<in> set (obj_subsections (heap p' ! a))"
  shows "obj_level (heap p' ! a) < obj_level (heap p' ! c)"
proof -
  have "levels_ok (heap p') \<and> refs_ok p'"
    using reachable_parser_ok [OF assms(1)] assms(2) by (rule parse_file_ok)
  then have ok: "levels_ok (heap p')" and refs: "refs_ok p'"
    by simp_all
  have "document p' = Some d"
    using assms(2) by (auto simp: parse_file_def Let_def split: option.splits)
  with refs have "\<forall>a \<in> set (sections d). a < length (heap p')"
    by (simp add: refs_ok_def)
  with ok assms(3) have "a < length (heap p')"
    by (blast intro: in_tree_bound)
  with ok assms(4) show ?thesis
    by (simp add: levels_ok_def)
qed

theorem child_level_greater_witness:
  "obj_level (heap (snd (projr (parse_file (example_env [''## A'', ''### B'']) init ''doc.md'' None))) ! 0)
   < obj_level (heap (snd (projr (parse_file (example_env [''## A'', ''### B'']) init ''doc.md'' None))) ! 1)"
proof -
  have run: "parse_file (example_env [''## A'', ''### B'']) init ''doc.md'' None
        = Inr (fst (projr (parse_file (example_env [''## A'', ''### B'']) init ''doc.md'' None)),
               snd (projr (parse_file (example_env [''## A'', ''### B'']) init ''doc.md'' None)))"
    by code_simp
  have "0 \<in> set (sections (fst (projr (parse_file (example_env [''## A'', ''### B'']) init
                ''doc.md'' None))))"
    by code_simp
  then have tree: "in_tree (heap (snd (projr (parse_file (example_env [''## A'', ''### B'']) init
                ''doc.md'' None))))
             (sections (fst (projr (parse_file (example_env [''## A'', ''### B'']) init
                ''doc.md'' None)))) 0"
    by (rule in_tree.root)
  have sub: "1 \<in> set (obj_subsections (heap (snd (projr (parse_file
                (example_env [''## A'', ''### B'']) init ''doc.md'' None))) ! 0))"
    by code_simp
  show ?thesis
    by (rule child_level_greater [OF reachable_parser.new run tree sub])
qed
section \<open>A parser used twice\<close>









lemma process_section_header_heap:
  assumes "\<not> (lvl = 1 \<and> \<not> seen_document_title p)"
  obtains h1 i x where "length h1 = Suc (length (heap p))"
    and "\<And>a. a < length (heap p) \<Longrightarrow> h1 ! a = heap p ! a"
    and "obj_level (h1 ! length (heap p)) = lvl"
    and "heap (process_section_header tp lvl np p) = h1[i := (h1 ! i)\<lparr>obj_subsections := x\<rparr>]"
proof -
  define h1 where "h1 = heap p @ [\<lparr>obj_name = clean_section_name (make_raw_name np tp),
                                      obj_raw_name = make_raw_name np tp, obj_content = [],
                                      obj_level = lvl, obj_subsections = []\<rparr>]"
  have 1: "length h1 = Suc (length (heap p))"
    by (simp add: h1_def)
  have 2: "h1 ! a = heap p ! a" if "a < length (heap p)" for a
    using that by (simp add: h1_def nth_append)
  have 3: "obj_level (h1 ! length (heap p)) = lvl"
    by (simp add: h1_def)
  have "heap (process_section_header tp lvl np p) = h1
        \<or> (\<exists>i x. heap (process_section_header tp lvl np p)
                   = h1[i := (h1 ! i)\<lparr>obj_subsections := x\<rparr>])"
    using assms unfolding h1_def
    by (cases "find_parent (heap p @ [\<lparr>obj_name = clean_section_name (make_raw_name np tp),
                                      obj_raw_name = make_raw_name np tp, obj_content = [],
                                      obj_level = lvl, obj_subsections = []\<rparr>])
                 (section_stack p) lvl (length (section_stack p))")
       (auto simp: process_section_header_def Let_def add_section_def add_subsection_def)
  moreover have "h1 = h1[length h1 := (h1 ! length h1)\<lparr>obj_subsections := []\<rparr>]"
    by (simp add: list_update_beyond)
  ultimately obtain i x where "heap (process_section_header tp lvl np p)
                   = h1[i := (h1 ! i)\<lparr>obj_subsections := x\<rparr>]"
    by metis
  with 1 2 3 show thesis
    by (rule that)
qed













section \<open>Citation lines\<close>

lemma matches_Seq_Sym:
  "matches (Seq (Sym P) r) s c = (case s of [] \<Rightarrow> [] | x # t \<Rightarrow> if P x then matches r t c else [])"
  by (cases s) simp_all

lemma reference_match_first:
  assumes "reference_match l = Some x"
  shows "\<exists>t. l = CHR ''['' # t"
proof (cases l)
  case Nil
  with assms show ?thesis
    by (simp add: reference_match_def first_match_def REFERENCE_PATTERN_def matches_Seq_Sym)
next
  case (Cons y t)
  with assms show ?thesis
    by (cases "y = CHR ''[''")
       (simp_all add: reference_match_def first_match_def REFERENCE_PATTERN_def matches_Seq_Sym
         lit_def)
qed

lemma header_match_bracket: "header_match (CHR ''['' # t) = None"
  by (simp add: header_match_def first_match_def SECTION_HEADER_PATTERN_def lit_def)

lemma table_line_bracket: "\<not> table_line (CHR ''['' # t)"
  by (simp add: table_line_def first_match_def TABLE_ROW_PATTERN_def
      TABLE_SEPARATOR_PATTERN_def matches_Seq_Sym lit_def)

lemma parse_line_citation:
  assumes "reference_match (rstrip raw) = Some (rid, rtext)"
  shows "parse_line (p, cc) raw
         = (add_reference \<lparr>ref_id = rid, ref_text = rtext\<rparr> p,
            if current_section p \<noteq> None then cc @ [rstrip raw] else cc)"
proof -
  from reference_match_first [OF assms] obtain t where t: "rstrip raw = CHR ''['' # t"
    by blast
  have hd: "header_match (rstrip raw) = None" and tl: "\<not> table_line (rstrip raw)"
    by (simp_all add: t header_match_bracket table_line_bracket)
  have "rstrip raw \<noteq> []"
    by (simp add: t)
  then have ne: "strip (rstrip raw) \<noteq> []"
    by (simp only: strip_rstrip_Nil not_False_eq_True)
  show ?thesis
    using assms hd tl ne
    by (cases rule: parse_line_cases [of raw p cc]) simp_all
qed

lemma sublist_right: "sublist xs ys \<Longrightarrow> sublist xs (ys @ zs)"
  unfolding sublist_def by (metis append_assoc)

lemma sublist_left: "sublist xs ys \<Longrightarrow> sublist xs (zs @ ys)"
  unfolding sublist_def by (metis append_assoc)

lemma join_Cons: "join sep (x # xs) = (if xs = [] then x else x @ sep @ join sep xs)"
  by (cases xs) simp_all

lemma join_sublist:
  "l \<in> set cc \<Longrightarrow> sublist (l @ [newline]) (join [newline] cc @ [newline])"
proof (induction cc)
  case Nil
  then show ?case by simp
next
  case (Cons x xs)
  show ?case
  proof (cases "xs = []")
    case True
    with Cons.prems show ?thesis by simp
  next
    case False
    show ?thesis
    proof (cases "l = x")
      case True
      have "sublist (x @ [newline]) ((x @ [newline]) @ (join [newline] xs @ [newline]))"
        by (rule sublist_append_rightI)
      with True False show ?thesis by (simp add: join_Cons)
    next
      case ne: False
      with Cons.prems have "l \<in> set xs" by simp
      then have "sublist (l @ [newline]) (join [newline] xs @ [newline])"
        by (rule Cons.IH)
      then have "sublist (l @ [newline]) ((x @ [newline]) @ (join [newline] xs @ [newline]))"
        by (rule sublist_left)
      with False show ?thesis by (simp add: join_Cons)
    qed
  qed
qed

lemma append_content_content:
  assumes "b < length (heap p)"
  shows "obj_content (heap (append_content cc p) ! b)
         = obj_content (heap p ! b)
           @ (if current_section p = Some b \<and> cc \<noteq> [] then join [newline] cc @ [newline] else [])"
proof (cases "current_section p")
  case None
  then show ?thesis by (simp add: append_content_def)
next
  case (Some a)
  show ?thesis
    using assms by (cases "a = b") (simp_all add: append_content_def Some)
qed

lemma kept_append_content:
  assumes "kept a l (p, cc)"
  shows "a < length (heap (append_content cc p))
       \<and> sublist (l @ [newline]) (obj_content (heap (append_content cc p) ! a))"
proof -
  from assms have a: "a < length (heap p)"
    by (simp add: kept_def)
  from assms consider (waits) "l \<in> set cc" "current_section p = Some a"
    | (there) "sublist (l @ [newline]) (obj_content (heap p ! a))"
    by (auto simp: kept_def)
  then have "sublist (l @ [newline]) (obj_content (heap (append_content cc p) ! a))"
  proof cases
    case waits
    then have "cc \<noteq> []" by auto
    with waits show ?thesis
      by (simp add: append_content_content [OF a] join_sublist sublist_left)
  next
    case there
    then show ?thesis
      by (simp add: append_content_content [OF a] sublist_right)
  qed
  with a show ?thesis by simp
qed

lemma subsections_update_content:
  "a < length h \<Longrightarrow> obj_content ((h[i := (h ! i)\<lparr>obj_subsections := x\<rparr>]) ! a) = obj_content (h ! a)"
  by (cases "i = a") simp_all

lemma process_section_header_content:
  assumes "a < length (heap p)"
  shows "obj_content (heap (process_section_header tp lvl np p) ! a) = obj_content (heap p ! a)
       \<and> a < length (heap (process_section_header tp lvl np p))"
proof (cases "lvl = 1 \<and> \<not> seen_document_title p")
  case True
  then show ?thesis
    using assms by (simp add: process_section_header_def)
next
  case False
  from process_section_header_heap [OF False, of tp np] obtain h1 i x
    where len: "length h1 = Suc (length (heap p))"
      and old: "\<And>a. a < length (heap p) \<Longrightarrow> h1 ! a = heap p ! a"
      and eq: "heap (process_section_header tp lvl np p) = h1[i := (h1 ! i)\<lparr>obj_subsections := x\<rparr>]"
    by metis
  have "obj_content (h1[i := (h1 ! i)\<lparr>obj_subsections := x\<rparr>] ! a) = obj_content (h1 ! a)"
    using assms len by (intro subsections_update_content) simp
  then show ?thesis
    using assms by (simp add: eq old len)
qed

lemma kept_parse_line:
  assumes "kept a l (p, cc)"
  shows "kept a l (parse_line (p, cc) raw)"
proof (cases rule: parse_line_cases [of raw p cc])
  case (hdr hashes np tp)
  from kept_append_content [OF assms]
  have "a < length (heap (append_content cc p))"
    and "sublist (l @ [newline]) (obj_content (heap (append_content cc p) ! a))"
    by simp_all
  then show ?thesis
    using hdr process_section_header_content [of a "append_content cc p" tp "int (length hashes)" np]
    by (simp add: kept_def)
next
  case tbl
  show ?thesis
  proof (cases "cc \<noteq> [] \<and> \<not> is_in_table p")
    case True
    with tbl kept_append_content [OF assms] show ?thesis
      by (simp add: kept_def)
  next
    case False
    with tbl assms show ?thesis
      by (auto simp add: kept_def)
  qed
next
  case blank
  with assms show ?thesis
    by (simp add: kept_def)
next
  case plain
  have "heap (case reference_match (rstrip raw) of
               Some (rid, rtext) \<Rightarrow> add_reference \<lparr>ref_id = rid, ref_text = rtext\<rparr> p
             | None \<Rightarrow> p) = heap p"
    and "current_section (case reference_match (rstrip raw) of
               Some (rid, rtext) \<Rightarrow> add_reference \<lparr>ref_id = rid, ref_text = rtext\<rparr> p
             | None \<Rightarrow> p) = current_section p"
    by (simp_all add: add_reference_def split: option.splits)
  with plain assms show ?thesis
    by (auto simp add: kept_def)
qed

lemma kept_foldl: "kept a l st \<Longrightarrow> kept a l (foldl parse_line st ls)"
proof (induction ls arbitrary: st)
  case Nil
  then show ?case by simp
next
  case (Cons x ls)
  obtain q cc where st: "st = (q, cc)" by (cases st)
  with Cons.prems have "kept a l (parse_line (q, cc) x)"
    by (simp add: kept_parse_line)
  then show ?case
    using Cons.IH st by simp
qed

lemma foldl_parse_line_ok:
  "levels_ok (heap (fst st)) \<and> refs_ok (fst st)
   \<Longrightarrow> levels_ok (heap (fst (foldl parse_line st ls))) \<and> refs_ok (fst (foldl parse_line st ls))"
proof (induction ls arbitrary: st)
  case Nil
  then show ?case by simp
next
  case (Cons l ls)
  obtain q cc where st: "st = (q, cc)" by (cases st)
  with Cons.prems have "levels_ok (heap (fst (parse_line (q, cc) l)))
      \<and> refs_ok (fst (parse_line (q, cc) l))"
    by (simp add: parse_line_ok)
  then show ?case
    using Cons.IH st by simp
qed

lemma references_same:
  assumes "map_option references (document q) = map_option references (document p)"
    and "document p = Some d"
  shows "\<exists>d'. document q = Some d' \<and> prefix (references d) (references d')"
  using assms by auto

lemma parse_line_references:
  assumes "document p = Some d"
  shows "\<exists>d'. document (fst (parse_line (p, cc) raw)) = Some d'
              \<and> prefix (references d) (references d')"
proof (cases rule: parse_line_cases [of raw p cc])
  case (hdr hashes np tp)
  have "map_option references (document (process_section_header tp (int (length hashes)) np
                                           (append_content cc p)))
        = map_option references (document p)"
    by simp
  from references_same [OF this assms] show ?thesis
    using hdr by simp
next
  case tbl
  then show ?thesis
    using assms by simp
next
  case blank
  have "map_option references (document (process_table_buffer [] p))
        = map_option references (document p)"
    by (simp add: process_table_buffer_def Let_def add_table_def option.map_comp comp_def)
  from references_same [OF this assms] show ?thesis
    using blank by simp
next
  case plain
  then show ?thesis
    using assms by (cases "reference_match (rstrip raw)") (auto simp: add_reference_def)
qed

lemma foldl_parse_line_references:
  assumes "document (fst st) = Some d"
  shows "\<exists>d'. document (fst (foldl parse_line st ls)) = Some d'
              \<and> prefix (references d) (references d')"
  using assms
proof (induction ls arbitrary: st d)
  case Nil
  then show ?case by simp
next
  case (Cons l ls)
  obtain q cc where st: "st = (q, cc)" by (cases st)
  with Cons.prems parse_line_references [of q d cc l] obtain d1
    where d1: "document (fst (parse_line (q, cc) l)) = Some d1"
      and p1: "prefix (references d) (references d1)"
    by auto
  from Cons.IH [OF d1] obtain d'
    where "document (fst (foldl parse_line (parse_line (q, cc) l) ls)) = Some d'"
      and "prefix (references d1) (references d')"
    by blast
  with p1 show ?case
    by (auto simp: st intro: prefix_order.trans)
qed

text \<open>
  C9. A line of the form of a citation, read while a section is open, is added to the
  references of the document and to \<open>current_content\<close>, and from there it goes into the
  content of that section: in the document that \<open>parse_file\<close> returns, the reference
  follows the references of the lines before it, and the content of the section that was
  open holds the line, with the newline that ends it.
\<close>

theorem citation_kept:
  assumes reach: "reachable_parser p0"
    and lines: "files e path = Some (pre @ raw # post)"
    and run: "parse_file e p0 path title_arg = Inr (d', p')"
    and title: "t = (case title_arg of None \<Rightarrow> stem_title e path
                     | Some ta \<Rightarrow> if ta = [] then stem_title e path else ta)"
    and before: "foldl parse_line (p0\<lparr>document := Some (new_document (now e) t)\<rparr>, []) pre
                 = (p, cc)"
    and "open": "current_section p = Some a"
    and cite: "reference_match (rstrip raw) = Some (rid, rtext)"
  shows "parse_line (p, cc) raw
         = (add_reference \<lparr>ref_id = rid, ref_text = rtext\<rparr> p, cc @ [rstrip raw])
       \<and> (\<exists>d rs. document p = Some d
                \<and> references d' = references d @ \<lparr>ref_id = rid, ref_text = rtext\<rparr> # rs)
       \<and> sublist (rstrip raw @ [newline]) (obj_content (heap p' ! a))"
proof -
  let ?start = "p0\<lparr>document := Some (new_document (now e) t)\<rparr>"
  let ?r = "\<lparr>ref_id = rid, ref_text = rtext\<rparr>"
  have step: "parse_line (p, cc) raw = (add_reference ?r p, cc @ [rstrip raw])"
    using parse_line_citation [OF cite, of p cc] "open" by simp
  obtain p3 cc3 where after: "foldl parse_line (add_reference ?r p, cc @ [rstrip raw]) post
                              = (p3, cc3)"
    by (cases "foldl parse_line (add_reference ?r p, cc @ [rstrip raw]) post")
  have p': "p' = finalize_parsing (append_content cc3 p3)" and doc': "document p' = Some d'"
    using run lines before step after
    by (auto simp: parse_file_def Let_def scan_def title split: option.splits)
  \<comment> \<open>the references\<close>
  have "document (fst (?start, [] :: string list)) = Some (new_document (now e) t)"
    by simp
  from foldl_parse_line_references [OF this, of pre] before obtain d
    where d: "document p = Some d"
    by auto
  have "document (fst (add_reference ?r p, cc @ [rstrip raw]))
        = Some (d\<lparr>references := references d @ [?r]\<rparr>)"
    by (simp add: add_reference_def d)
  from foldl_parse_line_references [OF this, of post] after obtain d3
    where d3: "document p3 = Some d3" and pre3: "prefix (references d @ [?r]) (references d3)"
    by auto
  have "map_option references (document p') = map_option references (document p3)"
    unfolding p'
    by (simp add: finalize_parsing_def process_table_buffer_def Let_def add_table_def
        option.map_comp comp_def)
  with d3 doc' have "references d' = references d3"
    by simp
  with pre3 obtain rs where "references d' = references d @ ?r # rs"
    by (auto simp: prefix_def)
  with d have refs: "\<exists>d rs. document p = Some d \<and> references d' = references d @ ?r # rs"
    by blast
  \<comment> \<open>the content\<close>
  have "levels_ok (heap p0) \<and> refs_ok p0"
    using reach by (rule reachable_parser_ok)
  then have "levels_ok (heap (fst (?start, [] :: string list)))
             \<and> refs_ok (fst (?start, [] :: string list))"
    by (simp add: refs_ok_def new_document_def)
  from foldl_parse_line_ok [OF this, of pre] before have "refs_ok p"
    by simp
  with "open" have "a < length (heap p)"
    by (simp add: refs_ok_def)
  with "open" have "kept a (rstrip raw) (add_reference ?r p, cc @ [rstrip raw])"
    by (simp add: kept_def add_reference_def)
  then have "kept a (rstrip raw) (p3, cc3)"
    using kept_foldl [of a "rstrip raw" "(add_reference ?r p, cc @ [rstrip raw])" post] after
    by simp
  then have "sublist (rstrip raw @ [newline]) (obj_content (heap (append_content cc3 p3) ! a))"
    by (simp add: kept_append_content)
  then have content: "sublist (rstrip raw @ [newline]) (obj_content (heap p' ! a))"
    by (simp add: p' finalize_parsing_def)
  from step refs content show ?thesis
    by blast
qed

theorem citation_kept_witness:
  "sublist (rstrip ''[1] Ref'' @ [newline])
     (obj_content (heap (snd (projr (parse_file (example_env [''## A'', ''[1] Ref'', ''x''])
                                       init ''doc.md'' None))) ! 0))"
proof -
  let ?e = "example_env [''## A'', ''[1] Ref'', ''x'']"
  let ?r = "projr (parse_file ?e init ''doc.md'' None)"
  let ?b = "foldl parse_line (init\<lparr>document := Some (new_document (now ?e) ''Doc'')\<rparr>, [])
              [''## A'']"
  have lines: "files ?e ''doc.md'' = Some ([''## A''] @ ''[1] Ref'' # [''x''])"
    by (simp add: example_env_def)
  have run: "parse_file ?e init ''doc.md'' None = Inr (fst ?r, snd ?r)"
    by code_simp
  have title: "''Doc'' = (case None :: string option of None \<Rightarrow> stem_title ?e ''doc.md''
                          | Some ta \<Rightarrow> if ta = [] then stem_title ?e ''doc.md'' else ta)"
    by (simp add: example_env_def)
  have before: "?b = (fst ?b, snd ?b)"
    by simp
  have sec: "current_section (fst ?b) = Some 0"
    by code_simp
  have cite: "reference_match (rstrip ''[1] Ref'') = Some (''1'', ''Ref'')"
    by code_simp
  from citation_kept [OF reachable_parser.new lines run title before sec cite]
  show ?thesis
    by blast
qed
section \<open>The level of a header\<close>

subsection \<open>The matcher\<close>




























subsection \<open>The first group\<close>








end
